theory Spec2Isabelle
  imports Complex_Main
begin

section \<open>Python values\<close>

text \<open>
  A Python \<open>str\<close> is a sequence of Unicode code points, a \<open>bytes\<close> object a sequence
  of octets. Both are lists of naturals; \<open>lit\<close> turns an ASCII literal of the source
  into its code points.
\<close>

type_synonym pystr = "nat list"
type_synonym bytes = "nat list"

abbreviation lit :: "string \<Rightarrow> pystr" where
  "lit s \<equiv> map of_char s"

text \<open>The exceptions that the modelled code can raise.\<close>

datatype exn =
    UnicodeEncodeError
  | UnicodeDecodeError
  | ValueError
  | TypeError
  | BinasciiError
  | FileNotFoundError
  | OSError
  | RequestedRangeNotSatisfiable
  | RuntimeError pystr

section \<open>Library functions used by the identity codec\<close>

subsection \<open>\<open>str.encode("utf-8")\<close> and \<open>bytes.decode("utf-8")\<close>\<close>

definition is_surrogate :: "nat \<Rightarrow> bool" where
  "is_surrogate c = (0xD800 \<le> c \<and> c \<le> 0xDFFF)"

text \<open>
  One code point to its UTF-8 octets. Lone surrogates cannot be encoded (Python raises
  \<open>UnicodeEncodeError\<close>); a \<open>str\<close> holds no code point above \<open>0x10FFFF\<close>.
\<close>

definition utf8_encode_char :: "nat \<Rightarrow> bytes option" where
  "utf8_encode_char c =
     (if c < 0x80 then Some [c]
      else if c < 0x800 then Some [0xC0 + c div 64, 0x80 + c mod 64]
      else if is_surrogate c then None
      else if c < 0x10000 then
        Some [0xE0 + c div 4096, 0x80 + (c div 64) mod 64, 0x80 + c mod 64]
      else if c < 0x110000 then
        Some [0xF0 + c div 262144, 0x80 + (c div 4096) mod 64,
              0x80 + (c div 64) mod 64, 0x80 + c mod 64]
      else None)"

fun str_encode_utf8 :: "pystr \<Rightarrow> exn + bytes" where
  "str_encode_utf8 [] = Inr []"
| "str_encode_utf8 (c # cs) =
     (case utf8_encode_char c of
        None \<Rightarrow> Inl UnicodeEncodeError
      | Some bs \<Rightarrow>
          (case str_encode_utf8 cs of
             Inl e \<Rightarrow> Inl e
           | Inr rest \<Rightarrow> Inr (bs @ rest)))"

definition is_cont :: "nat \<Rightarrow> bool" where
  "is_cont b = (0x80 \<le> b \<and> b \<le> 0xBF)"

text \<open>
  The strict decoder reads one code point from the front of the input: the lead octet
  fixes the length, continuation octets must be \<open>10xxxxxx\<close>, and overlong forms,
  surrogates and values above \<open>0x10FFFF\<close> are rejected.
\<close>

fun utf8_next :: "bytes \<Rightarrow> (nat \<times> bytes) option" where
  "utf8_next [] = None"
| "utf8_next (b0 # r) =
     (if b0 < 0x80 then Some (b0, r)
      else if 0xC2 \<le> b0 \<and> b0 \<le> 0xDF then
        (case r of
           b1 # r1 \<Rightarrow>
             if is_cont b1 then Some ((b0 - 0xC0) * 64 + (b1 - 0x80), r1) else None
         | _ \<Rightarrow> None)
      else if 0xE0 \<le> b0 \<and> b0 \<le> 0xEF then
        (case r of
           b1 # b2 # r2 \<Rightarrow>
             if is_cont b1 \<and> is_cont b2 then
               (let cp = (b0 - 0xE0) * 4096 + (b1 - 0x80) * 64 + (b2 - 0x80)
                in if cp < 0x800 \<or> is_surrogate cp then None else Some (cp, r2))
             else None
         | _ \<Rightarrow> None)
      else if 0xF0 \<le> b0 \<and> b0 \<le> 0xF4 then
        (case r of
           b1 # b2 # b3 # r3 \<Rightarrow>
             if is_cont b1 \<and> is_cont b2 \<and> is_cont b3 then
               (let cp = (b0 - 0xF0) * 262144 + (b1 - 0x80) * 4096
                          + (b2 - 0x80) * 64 + (b3 - 0x80)
                in if cp < 0x10000 \<or> 0x10FFFF < cp then None else Some (cp, r3))
             else None
         | _ \<Rightarrow> None)
      else None)"

lemma utf8_next_shorter: "utf8_next bs = Some (cp, rest) \<Longrightarrow> length rest < length bs"
  by (cases bs) (auto split: if_splits list.splits simp: Let_def)

declare utf8_next.simps [simp del]

function bytes_decode_utf8 :: "bytes \<Rightarrow> exn + pystr" where
  "bytes_decode_utf8 [] = Inr []"
| "bytes_decode_utf8 (b # bs) =
     (case utf8_next (b # bs) of
        None \<Rightarrow> Inl UnicodeDecodeError
      | Some (cp, rest) \<Rightarrow>
          (case bytes_decode_utf8 rest of
             Inl e \<Rightarrow> Inl e
           | Inr cs \<Rightarrow> Inr (cp # cs)))"
  by pat_completeness auto
termination
proof (relation "measure length")
  show "wf (measure length)" by simp
next
  fix b bs x2 cp rest
  assume "utf8_next (b # bs) = Some x2" and "(cp, rest) = x2"
  then have "utf8_next (b # bs) = Some (cp, rest)" by simp
  then have "length rest < length (b # bs)" by (rule utf8_next_shorter)
  then show "(rest, b # bs) \<in> measure length" by simp
qed

text \<open>\<open>bytes.decode("ascii")\<close> and \<open>str.encode("ascii")\<close>: every element below 128.\<close>

definition bytes_decode_ascii :: "bytes \<Rightarrow> exn + pystr" where
  "bytes_decode_ascii bs = (if list_all (\<lambda>b. b < 128) bs then Inr bs else Inl UnicodeDecodeError)"

subsection \<open>\<open>base64.urlsafe_b64encode\<close> and \<open>base64.urlsafe_b64decode\<close>\<close>

text \<open>The standard alphabet \<open>A-Z a-z 0-9 + /\<close>, indexed by the six-bit value.\<close>

definition table_b2a_base64 :: "nat \<Rightarrow> nat" where
  "table_b2a_base64 i =
     (if i < 26 then 65 + i
      else if i < 52 then 71 + i
      else if i < 62 then i - 4
      else if i = 62 then 43
      else 47)"

text \<open>
  Three octets give four characters; a final group of one or two octets is completed with
  the pad character \<open>=\<close> (code 61).
\<close>

fun b2a_base64 :: "bytes \<Rightarrow> bytes" where
  "b2a_base64 [] = []"
| "b2a_base64 [a] =
     [table_b2a_base64 (a div 4), table_b2a_base64 ((a mod 4) * 16), 61, 61]"
| "b2a_base64 [a, b] =
     [table_b2a_base64 (a div 4), table_b2a_base64 ((a mod 4) * 16 + b div 16),
      table_b2a_base64 ((b mod 16) * 4), 61]"
| "b2a_base64 (a # b # c # rest) =
     [table_b2a_base64 (a div 4), table_b2a_base64 ((a mod 4) * 16 + b div 16),
      table_b2a_base64 ((b mod 16) * 4 + c div 64), table_b2a_base64 (c mod 64)]
     @ b2a_base64 rest"

text \<open>The URL-safe variant replaces \<open>+\<close> by \<open>-\<close> and \<open>/\<close> by \<open>_\<close>.\<close>

definition urlsafe_encode_translation :: "nat \<Rightarrow> nat" where
  "urlsafe_encode_translation c = (if c = 43 then 45 else if c = 47 then 95 else c)"

definition urlsafe_decode_translation :: "nat \<Rightarrow> nat" where
  "urlsafe_decode_translation c = (if c = 45 then 43 else if c = 95 then 47 else c)"

definition urlsafe_b64encode :: "bytes \<Rightarrow> bytes" where
  "urlsafe_b64encode s = map urlsafe_encode_translation (b2a_base64 s)"

text \<open>The decoding table: the six-bit value of a character of the standard alphabet.\<close>

definition table_a2b_base64 :: "nat \<Rightarrow> nat option" where
  "table_a2b_base64 c =
     (if 65 \<le> c \<and> c \<le> 90 then Some (c - 65)
      else if 97 \<le> c \<and> c \<le> 122 then Some (c - 71)
      else if 48 \<le> c \<and> c \<le> 57 then Some (c + 4)
      else if c = 43 then Some 62
      else if c = 47 then Some 63
      else None)"

text \<open>
  \<open>binascii.a2b_base64\<close> in its default, non-strict mode, as \<open>base64.b64decode\<close> calls
  it: the loop over the input keeps the position in the current group of four
  (\<open>quad_pos\<close>), the bits left over from the previous character (\<open>leftchar\<close>) and the
  number of pad characters seen in a row (\<open>pads\<close>). A character outside the alphabet is
  skipped; a pad sequence that completes the group ends the decoding; input that ends
  inside a group is an error. The shifts and ors of the C code join disjoint bit ranges,
  so they are written as sums, and the store into an octet as \<open>mod 256\<close>.
\<close>

fun a2b_loop :: "bytes \<Rightarrow> nat \<Rightarrow> nat \<Rightarrow> nat \<Rightarrow> bytes \<Rightarrow> exn + bytes" where
  "a2b_loop [] quad_pos leftchar pads out =
     (if quad_pos \<noteq> 0 then Inl BinasciiError else Inr out)"
| "a2b_loop (c # cs) quad_pos leftchar pads out =
     (if c = 61 then
        (if 2 \<le> quad_pos \<and> 4 \<le> quad_pos + (pads + 1) then Inr out
         else a2b_loop cs quad_pos leftchar (if 2 \<le> quad_pos then pads + 1 else pads) out)
      else
        (case table_a2b_base64 c of
           None \<Rightarrow> a2b_loop cs quad_pos leftchar pads out
         | Some v \<Rightarrow>
             (if quad_pos = 0 then a2b_loop cs 1 v 0 out
              else if quad_pos = 1 then
                a2b_loop cs 2 (v mod 16) 0 (out @ [(leftchar * 4 + v div 16) mod 256])
              else if quad_pos = 2 then
                a2b_loop cs 3 (v mod 4) 0 (out @ [(leftchar * 16 + v div 4) mod 256])
              else a2b_loop cs 0 0 0 (out @ [(leftchar * 64 + v) mod 256]))))"

definition a2b_base64 :: "bytes \<Rightarrow> exn + bytes" where
  "a2b_base64 s = a2b_loop s 0 0 0 []"

text \<open>
  \<open>urlsafe_b64decode\<close> takes a \<open>str\<close>: it must be ASCII (\<open>ValueError\<close> otherwise), is
  translated back to the standard alphabet and handed to \<open>a2b_base64\<close>.
\<close>

definition urlsafe_b64decode :: "pystr \<Rightarrow> exn + bytes" where
  "urlsafe_b64decode s =
     (if list_all (\<lambda>c. c < 128) s
      then a2b_base64 (map urlsafe_decode_translation s)
      else Inl ValueError)"

text \<open>\<open>s.rstrip("=")\<close> for a one-character argument.\<close>

definition rstrip :: "nat \<Rightarrow> pystr \<Rightarrow> pystr" where
  "rstrip c s = rev (dropWhile (\<lambda>x. x = c) (rev s))"

section \<open>The identity codec\<close>

definition b64url_encode_path :: "pystr \<Rightarrow> exn + pystr" where
  "b64url_encode_path path_str =
     (case str_encode_utf8 path_str of
        Inl e \<Rightarrow> Inl e
      | Inr raw \<Rightarrow>
          (case bytes_decode_ascii (urlsafe_b64encode raw) of
             Inl e \<Rightarrow> Inl e
           | Inr b64 \<Rightarrow> Inr (rstrip 61 b64)))"

definition b64url_decode_path :: "pystr \<Rightarrow> exn + pystr" where
  "b64url_decode_path b64_id =
     (let padding = replicate (nat ((- int (length b64_id)) mod 4)) 61
      in case urlsafe_b64decode (b64_id @ padding) of
           Inl e \<Rightarrow> Inl e
         | Inr raw \<Rightarrow> bytes_decode_utf8 raw)"


section \<open>Integers as text\<close>

text \<open>\<open>str(n)\<close> and the \<open>{n}\<close> of an f-string: the decimal digits, with a minus sign.\<close>

fun nat_digits :: "nat \<Rightarrow> pystr" where
  "nat_digits n = (if n < 10 then [48 + n] else nat_digits (n div 10) @ [48 + n mod 10])"

declare nat_digits.simps [simp del]

definition py_str :: "int \<Rightarrow> pystr" where
  "py_str i = (if i < 0 then 45 # nat_digits (nat (- i)) else nat_digits (nat i))"

text \<open>
  \<open>int(s)\<close> on a string: white space around the number is dropped, one sign is allowed,
  and the digits may be grouped by single underscores. The white space is the ASCII set
  \<open>\t \n \v \f \r\<close> and space, and the Unicode spaces above 127. Decimal digits of other
  scripts, which \<open>int\<close> accepts as well, are outside the model: the texts converted
  here are HTTP header values and numbers printed by the program itself.
\<close>

definition is_space :: "nat \<Rightarrow> bool" where
  "is_space c =
     ((9 \<le> c \<and> c \<le> 13) \<or> c = 32 \<or> c = 0x85 \<or> c = 0xA0 \<or> c = 0x1680
      \<or> (0x2000 \<le> c \<and> c \<le> 0x200A) \<or> c = 0x2028 \<or> c = 0x2029 \<or> c = 0x202F
      \<or> c = 0x205F \<or> c = 0x3000)"

definition is_digit :: "nat \<Rightarrow> bool" where
  "is_digit c = (48 \<le> c \<and> c \<le> 57)"

definition int_strip :: "pystr \<Rightarrow> pystr" where
  "int_strip s = rev (dropWhile is_space (rev (dropWhile is_space s)))"

text \<open>The digits after the first one, \<open>acc\<close> being the value read so far.\<close>

fun parse_digits :: "pystr \<Rightarrow> nat \<Rightarrow> nat option" where
  "parse_digits [] acc = Some acc"
| "parse_digits (c # cs) acc =
     (if is_digit c then parse_digits cs (acc * 10 + (c - 48))
      else if c = 95 then
        (case cs of
           [] \<Rightarrow> None
         | d # ds \<Rightarrow> if is_digit d then parse_digits ds (acc * 10 + (d - 48)) else None)
      else None)"

definition parse_number :: "pystr \<Rightarrow> nat option" where
  "parse_number s =
     (case s of
        [] \<Rightarrow> None
      | c # cs \<Rightarrow> if is_digit c then parse_digits cs (c - 48) else None)"

definition py_int :: "pystr \<Rightarrow> exn + int" where
  "py_int s =
     (case int_strip s of
        [] \<Rightarrow> Inl ValueError
      | c # cs \<Rightarrow>
          if c = 43 then
            (case parse_number cs of None \<Rightarrow> Inl ValueError | Some n \<Rightarrow> Inr (int n))
          else if c = 45 then
            (case parse_number cs of None \<Rightarrow> Inl ValueError | Some n \<Rightarrow> Inr (- int n))
          else
            (case parse_number (c # cs) of None \<Rightarrow> Inl ValueError | Some n \<Rightarrow> Inr (int n)))"

text \<open>\<open>s.partition(sep)\<close> for a one-character separator.\<close>

definition str_partition :: "pystr \<Rightarrow> nat \<Rightarrow> pystr \<times> pystr \<times> pystr" where
  "str_partition s sep =
     (if sep \<in> set s
      then (takeWhile (\<lambda>c. c \<noteq> sep) s, [sep], tl (dropWhile (\<lambda>c. c \<noteq> sep) s))
      else (s, [], []))"

section \<open>Responses\<close>

text \<open>
  A URL built by \<open>url_for\<close> is kept as the endpoint with its query arguments, each value
  as the text that a request to the URL carries; the escaping of the text is Flask's.
\<close>

datatype url = Url pystr "(pystr \<times> pystr) list"

datatype json =
    JNull
  | JBool bool
  | JInt int
  | JNum rat
  | JStr pystr
  | JUrl url
  | JObj "(string \<times> json) list"

datatype payload = Json json | Data bytes

record response =
  status :: nat
  mimetype :: "pystr option"
  headers :: "(pystr \<times> pystr) list"
  body :: payload

definition jsonify :: "(string \<times> json) list \<Rightarrow> response" where
  "jsonify kvs =
     \<lparr>status = 200, mimetype = Some (lit ''application/json''), headers = [],
      body = Json (JObj kvs)\<rparr>"

definition abort_json :: "nat \<Rightarrow> pystr \<Rightarrow> response" where
  "abort_json st message = (jsonify [(''error'', JStr message)])\<lparr>status := st\<rparr>"

definition url_for :: "pystr \<Rightarrow> (pystr \<times> pystr) list \<Rightarrow> url" where
  "url_for endpoint values = Url endpoint values"

text \<open>
  \<open>headers[k] = v\<close> replaces the header, \<open>headers.add(k, v)\<close> appends one. Header
  names are compared as they are written.
\<close>

definition set_header :: "pystr \<Rightarrow> pystr \<Rightarrow> response \<Rightarrow> response" where
  "set_header k v r = r\<lparr>headers := filter (\<lambda>(k', _). k' \<noteq> k) (headers r) @ [(k, v)]\<rparr>"

definition add_header :: "pystr \<Rightarrow> pystr \<Rightarrow> response \<Rightarrow> response" where
  "add_header k v r = r\<lparr>headers := headers r @ [(k, v)]\<rparr>"

section \<open>The world outside the program\<close>

text \<open>
  The file system maps the path of a regular file to its content; \<open>cmd_log\<close> records the
  argument vector of every external program started, in order.
\<close>

type_synonym path = pystr
type_synonym filesys = "path \<Rightarrow> bytes option"

record world =
  files :: filesys
  cmd_log :: "pystr list list"

definition exists_path :: "world \<Rightarrow> path \<Rightarrow> bool" where
  "exists_path w p = (files w p \<noteq> None)"

text \<open>
  What the program takes from its environment: the external programs (\<open>ffmpeg\<close>,
  \<open>ffprobe\<close>, \<open>sox\<close>: from an argument vector and the file system to an exit status,
  the two output streams as text, and the file system afterwards), the directory of the
  program and the downloads directory, and the library functions \<open>wave.open\<close> (frame
  count and frame rate of a WAV file, nothing when it raises), \<open>float\<close> (\<open>py_float\<close>
  is \<open>float(out.strip())\<close>, nothing when it raises), \<open>mimetypes.guess_type\<close> and
  Flask's \<open>send_file\<close>. The last is called with \<open>conditional=True\<close>, so that it reads
  the request: it takes the path, the content of the file, the content type it is called
  with and the \<open>Range\<close> header of the request, and answers with a response or raises.
  \<open>seek_limit\<close> is the largest offset beyond the end of a file that the file system
  lets \<open>seek\<close> go to.
\<close>

record ext =
  tool :: "pystr list \<Rightarrow> filesys \<Rightarrow> (int \<times> pystr \<times> pystr) \<times> filesys"
  APP_ROOT :: path
  DOWNLOADS_DIR :: path
  wave_open :: "bytes \<Rightarrow> (nat \<times> nat) option"
  py_float :: "pystr \<Rightarrow> rat option"
  guess_type :: "pystr \<Rightarrow> pystr option"
  send_file :: "path \<Rightarrow> bytes \<Rightarrow> pystr option \<Rightarrow> pystr option \<Rightarrow> exn + response"
  seek_limit :: int

text \<open>The operator \<open>/\<close> of \<open>pathlib\<close>: an absolute right-hand side replaces the left.\<close>

definition joinpath :: "path \<Rightarrow> pystr \<Rightarrow> path" where
  "joinpath d name =
     (case name of
        [] \<Rightarrow> d
      | c # _ \<Rightarrow> if c = 47 then name else d @ [47] @ name)"

definition TEMP_DIR :: "ext \<Rightarrow> path" where
  "TEMP_DIR e = joinpath (APP_ROOT e) (lit ''temp'')"

definition THUMBS_DIR :: "ext \<Rightarrow> path" where
  "THUMBS_DIR e = joinpath (TEMP_DIR e) (lit ''thumbs'')"

definition AUDIO_DIR :: "ext \<Rightarrow> path" where
  "AUDIO_DIR e = joinpath (TEMP_DIR e) (lit ''audio'')"

definition PITCH_DIR :: "ext \<Rightarrow> path" where
  "PITCH_DIR e = joinpath (TEMP_DIR e) (lit ''pitch'')"

text \<open>
  \<open>Path.name\<close> and \<open>Path.stem\<close>, for a path that is written without a trailing
  slash: the last component, and the same without its last suffix.
\<close>

definition path_name :: "path \<Rightarrow> pystr" where
  "path_name p = rev (takeWhile (\<lambda>c. c \<noteq> 47) (rev p))"

definition path_stem :: "path \<Rightarrow> pystr" where
  "path_stem p =
     (let name = path_name p;
          after = takeWhile (\<lambda>c. c \<noteq> 46) (rev name)
      in if 46 \<in> set name \<and> after \<noteq> [] \<and> length after + 1 < length name
         then take (length name - length after - 1) name
         else name)"

definition run_cmd :: "ext \<Rightarrow> pystr list \<Rightarrow> world \<Rightarrow> (int \<times> pystr \<times> pystr) \<times> world" where
  "run_cmd e cmd w =
     (case tool e cmd (files w) of
        (res, fs') \<Rightarrow> (res, \<lparr>files = fs', cmd_log = cmd_log w @ [cmd]\<rparr>))"

section \<open>Durations\<close>

text \<open>Durations are floats in the source; they are rationals here.\<close>

definition ffprobe_duration_seconds :: "ext \<Rightarrow> path \<Rightarrow> world \<Rightarrow> rat option \<times> world" where
  "ffprobe_duration_seconds e p w =
     (let cmd = [lit ''ffprobe'', lit ''-v'', lit ''error'', lit ''-show_entries'',
                 lit ''format=duration'', lit ''-of'',
                 lit ''default=noprint_wrappers=1:nokey=1'', p]
      in case run_cmd e cmd w of
           ((code, out, err), w') \<Rightarrow> if code \<noteq> 0 then (None, w') else (py_float e out, w'))"

definition py_round :: "rat \<Rightarrow> int" where
  "py_round x =
     (let f = \<lfloor>x\<rfloor>; d = x - of_int f
      in if d < 1 / 2 then f else if 1 / 2 < d then f + 1 else if even f then f else f + 1)"

definition fmt_02d :: "int \<Rightarrow> pystr" where
  "fmt_02d i = (let s = py_str i in if length s < 2 then 48 # s else s)"

definition human_readable_duration :: "rat option \<Rightarrow> pystr" where
  "human_readable_duration seconds =
     (case seconds of
        None \<Rightarrow> lit ''Unknown''
      | Some x \<Rightarrow>
          (let seconds = py_round x;
               h = seconds div 3600;
               m = (seconds mod 3600) div 60;
               s = seconds mod 60
           in if 0 < h then fmt_02d h @ lit '':'' @ fmt_02d m @ lit '':'' @ fmt_02d s
              else fmt_02d m @ lit '':'' @ fmt_02d s))"

definition wav_duration_seconds :: "ext \<Rightarrow> world \<Rightarrow> path \<Rightarrow> rat option" where
  "wav_duration_seconds e w p =
     (case files w p of
        None \<Rightarrow> None
      | Some content \<Rightarrow>
          (case wave_open e content of
             None \<Rightarrow> None
           | Some (frames, rate) \<Rightarrow>
               if rate \<noteq> 0 then Some (of_nat frames / of_nat rate) else None))"

text \<open>The truth value of an optional float: \<open>None\<close> and \<open>0.0\<close> are false.\<close>

definition truthy :: "rat option \<Rightarrow> bool" where
  "truthy d = (case d of None \<Rightarrow> False | Some x \<Rightarrow> x \<noteq> 0)"

section \<open>The external tool adapter\<close>

definition generate_thumbnail :: "ext \<Rightarrow> path \<Rightarrow> path \<Rightarrow> world \<Rightarrow> world" where
  "generate_thumbnail e video_path thumb_path w =
     (if exists_path w thumb_path then w
      else
        (let cmd = [lit ''ffmpeg'', lit ''-y'', lit ''-ss'', lit ''1.0'', lit ''-i'', video_path,
                    lit ''-vframes'', lit ''1'', lit ''-q:v'', lit ''2'', thumb_path]
         in snd (run_cmd e cmd w)))"

definition extract_audio_wav :: "ext \<Rightarrow> path \<Rightarrow> path \<Rightarrow> world \<Rightarrow> (exn + unit) \<times> world" where
  "extract_audio_wav e video_path audio_out w =
     (if exists_path w audio_out then (Inr (), w)
      else
        (let cmd = [lit ''ffmpeg'', lit ''-y'', lit ''-i'', video_path, lit ''-vn'',
                    lit ''-acodec'', lit ''pcm_s16le'', lit ''-ar'', lit ''48000'', audio_out]
         in case run_cmd e cmd w of
              ((code, out, err), w') \<Rightarrow>
                if code \<noteq> 0
                then (Inl (RuntimeError (lit ''ffmpeg failed to extract audio: '' @ err)), w')
                else (Inr (), w')))"

definition sox_pitch_shift_wav ::
  "ext \<Rightarrow> path \<Rightarrow> path \<Rightarrow> int \<Rightarrow> world \<Rightarrow> (exn + unit) \<times> world" where
  "sox_pitch_shift_wav e input_wav output_wav semitones w =
     (if exists_path w output_wav then (Inr (), w)
      else
        (let cents = semitones * 100;
             cmd = [lit ''sox'', lit ''-G'', input_wav, output_wav, lit ''pitch'', py_str cents]
         in case run_cmd e cmd w of
              ((code, out, err), w') \<Rightarrow>
                if code \<noteq> 0
                then (Inl (RuntimeError (lit ''SoX failed to pitch shift: '' @ err)), w')
                else (Inr (), w')))"

definition mux_video_with_audio ::
  "ext \<Rightarrow> path \<Rightarrow> path \<Rightarrow> path \<Rightarrow> world \<Rightarrow> (exn + unit) \<times> world" where
  "mux_video_with_audio e video_path audio_wav output_path w =
     (let cmd = [lit ''ffmpeg'', lit ''-y'', lit ''-i'', video_path, lit ''-i'', audio_wav,
                 lit ''-c:v'', lit ''copy'', lit ''-c:a'', lit ''aac'', lit ''-b:a'', lit ''192k'',
                 lit ''-map'', lit ''0:v:0'', lit ''-map'', lit ''1:a:0'', lit ''-shortest'',
                 output_path]
      in case run_cmd e cmd w of
           ((code, out, err), w') \<Rightarrow>
             if code \<noteq> 0
             then (Inl (RuntimeError (lit ''ffmpeg failed to mux: '' @ err)), w')
             else (Inr (), w'))"

section \<open>The artifact locations\<close>

definition audio_base_path_for_id :: "ext \<Rightarrow> pystr \<Rightarrow> path" where
  "audio_base_path_for_id e file_id = joinpath (AUDIO_DIR e) (file_id @ lit ''.wav'')"

definition pitched_audio_path_for_id :: "ext \<Rightarrow> pystr \<Rightarrow> int \<Rightarrow> path" where
  "pitched_audio_path_for_id e file_id semitones =
     (let sign = (if 0 \<le> semitones then lit ''+'' else lit ''-'')
      in joinpath (PITCH_DIR e)
           (file_id @ lit ''_'' @ sign @ py_str \<bar>semitones\<bar> @ lit ''.wav''))"

definition thumb_path_for_id :: "ext \<Rightarrow> pystr \<Rightarrow> path" where
  "thumb_path_for_id e file_id = joinpath (THUMBS_DIR e) (file_id @ lit ''.jpg'')"

text \<open>The result is the error response or the path of the video.\<close>

definition get_video_path_from_id_or_404 :: "world \<Rightarrow> pystr \<Rightarrow> response + path" where
  "get_video_path_from_id_or_404 w file_id =
     (case b64url_decode_path file_id of
        Inl ex \<Rightarrow> Inl (abort_json 400 (lit ''Invalid video id''))
      | Inr path_str \<Rightarrow>
          if \<not> exists_path w path_str then Inl (abort_json 404 (lit ''Video not found''))
          else Inr path_str)"

section \<open>Range file serving\<close>

text \<open>
  The \<open>try\<close> block of \<open>send_file_range\<close>: from the header and the size of the file to
  \<open>start\<close>, \<open>end\<close> and \<open>length\<close> (here \<open>len\<close>), or the exception that sends the caller to the
  fallback.
\<close>

definition parse_range :: "pystr \<Rightarrow> int \<Rightarrow> exn + (int \<times> int \<times> int)" where
  "parse_range range_header file_size =
     (case str_partition range_header 61 of
        (units, _, range_spec) \<Rightarrow>
          if units \<noteq> lit ''bytes'' then Inl ValueError
          else
            (case str_partition range_spec 45 of
               (start_s, _, end_s) \<Rightarrow>
                 (case (if start_s \<noteq> [] then py_int start_s else Inr 0) of
                    Inl ex \<Rightarrow> Inl ex
                  | Inr start \<Rightarrow>
                      (case (if end_s \<noteq> [] then py_int end_s else Inr (file_size - 1)) of
                         Inl ex \<Rightarrow> Inl ex
                       | Inr end0 \<Rightarrow>
                           (let end1 = (if file_size \<le> end0 then file_size - 1 else end0);
                                len = end1 - start + 1
                            in Inr (start, end1, len))))))"

text \<open>
  The code shared by the branch without a header and the fallback: \<open>send_file\<close> is
  called in the same request, an exception it raises leaves the function, and the two
  headers are set on the response it returns.
\<close>

definition full_file_response ::
  "ext \<Rightarrow> path \<Rightarrow> bytes \<Rightarrow> pystr option \<Rightarrow> pystr option \<Rightarrow> exn + response" where
  "full_file_response e p content mt range_header =
     (case send_file e p content mt range_header of
        Inl ex \<Rightarrow> Inl ex
      | Inr resp \<Rightarrow>
          Inr (set_header (lit ''Accept-Ranges'') (lit ''bytes'')
                 (set_header (lit ''Cache-Control'') (lit ''no-store'') resp)))"

text \<open>
  \<open>f.seek(start)\<close> followed by \<open>f.read(length)\<close> on the file opened in binary mode.
  \<open>seek\<close> raises \<open>OSError\<close> for a negative offset and for one beyond what the file
  system allows, and \<open>ValueError\<close> for one of \<open>2^63\<close> or more; an offset inside the
  file is always allowed. \<open>read\<close> raises \<open>ValueError\<close> for a length below -1, reads to
  the end for -1 and at most \<open>length\<close> octets otherwise (the length is never above the
  size of the file here).
\<close>

definition seek_read :: "ext \<Rightarrow> bytes \<Rightarrow> int \<Rightarrow> int \<Rightarrow> exn + bytes" where
  "seek_read e content start len =
     (if start < 0 then Inl OSError
      else if int (length content) \<le> start \<and> 2 ^ 63 \<le> start then Inl ValueError
      else if int (length content) \<le> start \<and> seek_limit e < start then Inl OSError
      else if len < - 1 then Inl ValueError
      else if len = - 1 then Inr (drop (nat start) content)
      else Inr (take (nat len) (drop (nat start) content)))"

definition send_file_range ::
  "ext \<Rightarrow> world \<Rightarrow> path \<Rightarrow> pystr option \<Rightarrow> pystr option \<Rightarrow> exn + response" where
  "send_file_range e w p mt range_header =
     (case files w p of
        None \<Rightarrow> Inl FileNotFoundError
      | Some content \<Rightarrow>
          (let file_size = int (length content)
           in case range_header of
                None \<Rightarrow> full_file_response e p content mt range_header
              | Some rh \<Rightarrow>
                  if rh = [] then full_file_response e p content mt range_header
                  else
                    (case parse_range rh file_size of
                       Inl ex \<Rightarrow> full_file_response e p content mt range_header
                     | Inr (start, end1, len) \<Rightarrow>
                         (case seek_read e content start len of
                            Inl ex \<Rightarrow> Inl ex
                          | Inr data \<Rightarrow>
                              (let rv = \<lparr>status = 206, mimetype = mt, headers = [],
                                        body = Data data\<rparr>
                               in Inr
                                    (add_header (lit ''Cache-Control'') (lit ''no-store'')
                                      (add_header (lit ''Content-Length'') (py_str len)
                                        (add_header (lit ''Accept-Ranges'') (lit ''bytes'')
                                          (add_header (lit ''Content-Range'')
                                             (lit ''bytes '' @ py_str start @ lit ''-''
                                                @ py_str end1 @ lit ''/'' @ py_str file_size)
                                             rv)))))))))"

section \<open>Routes\<close>

text \<open>The two messages that quote a field name (39 is the apostrophe).\<close>

definition msg_missing_id :: pystr where
  "msg_missing_id = lit ''Missing '' @ [39] @ lit ''id'' @ [39]"

definition msg_semitones_range :: pystr where
  "msg_semitones_range = [39] @ lit ''semitones'' @ [39] @ lit '' must be between -8 and 8''"


text \<open>\<open>str(e)\<close> of the exceptions the tool adapter raises.\<close>

definition str_exn :: "exn \<Rightarrow> pystr" where
  "str_exn ex = (case ex of RuntimeError m \<Rightarrow> m | _ \<Rightarrow> [])"

definition json_duration :: "rat option \<Rightarrow> json" where
  "json_duration d = (case d of None \<Rightarrow> JNull | Some x \<Rightarrow> JNum x)"

text \<open>
  The chain \<open>a or b or c or d\<close> of \<open>api_pitch\<close>: the probes run from left to right until
  one gives a duration that counts as true; the last one is taken as it is.
\<close>

definition pitch_duration :: "ext \<Rightarrow> path \<Rightarrow> path \<Rightarrow> world \<Rightarrow> rat option \<times> world" where
  "pitch_duration e out base_audio w =
     (let d1 = wav_duration_seconds e w out
      in if truthy d1 then (d1, w)
         else
           (let d2 = wav_duration_seconds e w base_audio
            in if truthy d2 then (d2, w)
               else
                 (case ffprobe_duration_seconds e out w of
                    (d3, w') \<Rightarrow>
                      if truthy d3 then (d3, w') else ffprobe_duration_seconds e base_audio w')))"

text \<open>
  \<open>POST /api/pitch\<close>. The JSON body is given by its two entries: \<open>id\<close>, a string when
  present, and \<open>semitones\<close>, an integer when present, on which the conversion \<open>int\<close> of
  the source is the identity.
\<close>

definition api_pitch :: "ext \<Rightarrow> pystr option \<Rightarrow> int option \<Rightarrow> world \<Rightarrow> response \<times> world" where
  "api_pitch e data_id data_semitones w =
     (let semitones = (case data_semitones of None \<Rightarrow> 0 | Some s \<Rightarrow> s)
      in case data_id of
           None \<Rightarrow> (abort_json 400 msg_missing_id, w)
         | Some file_id \<Rightarrow>
             if semitones < - 8 \<or> 8 < semitones then
               (abort_json 400 msg_semitones_range, w)
             else
               (let base_audio = audio_base_path_for_id e file_id
                in if \<not> exists_path w base_audio then
                     (abort_json 400 (lit ''Base audio not extracted yet''), w)
                   else
                     (let out = pitched_audio_path_for_id e file_id semitones
                      in case sox_pitch_shift_wav e base_audio out semitones w of
                           (Inl ex, w1) \<Rightarrow> (abort_json 500 (str_exn ex), w1)
                         | (Inr u, w1) \<Rightarrow>
                             (case pitch_duration e out base_audio w1 of
                                (duration, w2) \<Rightarrow>
                                  (jsonify
                                     [(''ok'', JBool True),
                                      (''audio_url'',
                                         JUrl (url_for (lit ''serve_audio'')
                                                 [(lit ''id'', file_id),
                                                  (lit ''pitch'', py_str semitones)])),
                                      (''duration_seconds'', json_duration duration),
                                      (''duration'', JStr (human_readable_duration duration))],
                                   w2)))))"

text \<open>\<open>POST /api/store-video\<close>, with the body as for \<open>api_pitch\<close>.\<close>

definition api_store_video ::
  "ext \<Rightarrow> pystr option \<Rightarrow> int option \<Rightarrow> world \<Rightarrow> response \<times> world" where
  "api_store_video e data_id data_semitones w =
     (let semitones = (case data_semitones of None \<Rightarrow> 0 | Some s \<Rightarrow> s)
      in case data_id of
           None \<Rightarrow> (abort_json 400 msg_missing_id, w)
         | Some file_id \<Rightarrow>
             (case get_video_path_from_id_or_404 w file_id of
                Inl resp \<Rightarrow> (resp, w)
              | Inr video_path \<Rightarrow>
                  (let audio_path =
                         (if semitones \<noteq> 0 then pitched_audio_path_for_id e file_id semitones
                          else audio_base_path_for_id e file_id)
                   in if \<not> exists_path w audio_path then
                        (abort_json 400
                           (lit ''Requested audio not available. Generate it first.''), w)
                      else
                        (let base = path_stem video_path;
                             sign = (if 0 \<le> semitones then lit ''+'' else lit ''-'');
                             out_name = base @ lit ''_'' @ sign @ py_str \<bar>semitones\<bar> @ lit ''.mp4'';
                             out_path = joinpath (DOWNLOADS_DIR e) out_name
                         in case mux_video_with_audio e video_path audio_path out_path w of
                              (Inl ex, w1) \<Rightarrow> (abort_json 500 (str_exn ex), w1)
                            | (Inr u, w1) \<Rightarrow>
                                (jsonify [(''ok'', JBool True), (''output_path'', JStr out_path)],
                                 w1)))))"

section \<open>Predicates of the statements\<close>

text \<open>
  A code point that UTF-8 can express: a Unicode scalar value. A path is expressible in
  UTF-8 when all its code points are.
\<close>

definition utf8_ok :: "nat \<Rightarrow> bool" where
  "utf8_ok c = (c < 0x110000 \<and> \<not> is_surrogate c)"

text \<open>The characters of the URL-safe alphabet: letters, digits, \<open>-\<close> and \<open>_\<close>.\<close>

definition urlsafe_alphabet :: "nat \<Rightarrow> bool" where
  "urlsafe_alphabet c =
     ((65 \<le> c \<and> c \<le> 90) \<or> (97 \<le> c \<and> c \<le> 122) \<or> (48 \<le> c \<and> c \<le> 57) \<or> c = 45 \<or> c = 95)"

text \<open>
  The characters that the decoder takes as data: those of the URL-safe alphabet and also
  \<open>+\<close> and \<open>/\<close> of the standard one. A token leaves an incomplete group when the
  number of its data characters is one more than a multiple of four, or two or three more
  while the padding that \<open>b64url_decode_path\<close> appends from the length of the whole token
  is too short to complete the group.
\<close>

definition b64_data :: "nat \<Rightarrow> bool" where
  "b64_data c = (table_a2b_base64 (urlsafe_decode_translation c) \<noteq> None)"

definition incomplete_group :: "pystr \<Rightarrow> bool" where
  "incomplete_group t =
     (let n = length (filter b64_data t);
          k = nat ((- int (length t)) mod 4)
      in n mod 4 = 1 \<or> (n mod 4 = 2 \<and> k < 2) \<or> (n mod 4 = 3 \<and> k < 1))"

text \<open>
  The character that the encoder writes for a six-bit value, and what the decoder makes
  of it before it looks it up.
\<close>

definition enc_chr :: "nat \<Rightarrow> nat" where
  "enc_chr i = urlsafe_encode_translation (table_b2a_base64 i)"

definition dec_chr :: "nat \<Rightarrow> nat" where
  "dec_chr i = urlsafe_decode_translation (enc_chr i)"

text \<open>
  The parts of a \<open>Range\<close> header as \<open>send_file_range\<close> cuts it: the unit before the
  first \<open>=\<close>, and the two bounds around the first \<open>-\<close> of what follows.
\<close>

definition range_units :: "pystr \<Rightarrow> pystr" where
  "range_units h = fst (str_partition h 61)"

definition range_start_s :: "pystr \<Rightarrow> pystr" where
  "range_start_s h = fst (str_partition (snd (snd (str_partition h 61))) 45)"

definition range_end_s :: "pystr \<Rightarrow> pystr" where
  "range_end_s h = snd (snd (str_partition (snd (snd (str_partition h 61))) 45))"

text \<open>
  The characters that can stand in a number: digits, the two signs, the underscore and
  white space. A header is malformed when its unit is not \<open>bytes\<close> or when one of its
  bounds holds another character.
\<close>

definition numeric_char :: "nat \<Rightarrow> bool" where
  "numeric_char c = (is_digit c \<or> c = 43 \<or> c = 45 \<or> c = 95 \<or> is_space c)"

definition malformed_range :: "pystr \<Rightarrow> bool" where
  "malformed_range h =
     (range_units h \<noteq> lit ''bytes''
      \<or> (\<exists>c\<in>set (range_start_s h). \<not> numeric_char c)
      \<or> (\<exists>c\<in>set (range_end_s h). \<not> numeric_char c))"

section \<open>Flask's \<open>send_file\<close>\<close>

text \<open>
  A model of \<open>send_file(path, mimetype=..., conditional=True)\<close> as far as the \<open>Range\<close>
  header of the request decides the answer (werkzeug's \<open>parse_range_header\<close>,
  \<open>Range.range_for_length\<close> and \<open>Response.make_conditional\<close>). Validators of the
  request other than \<open>Range\<close> are not modelled, and of the headers only those that
  depend on the range are listed.
\<close>

text \<open>\<open>str.strip()\<close> and \<open>str.lower()\<close> on the text of a header.\<close>

definition py_isspace :: "nat \<Rightarrow> bool" where
  "py_isspace c = (is_space c \<or> (0x1C \<le> c \<and> c \<le> 0x1F))"

definition py_strip :: "pystr \<Rightarrow> pystr" where
  "py_strip s = rev (dropWhile py_isspace (rev (dropWhile py_isspace s)))"

definition py_lower :: "pystr \<Rightarrow> pystr" where
  "py_lower s =
     map (\<lambda>c. if (65 \<le> c \<and> c \<le> 90) \<or> (192 \<le> c \<and> c \<le> 222 \<and> c \<noteq> 215) then c + 32 else c) s"

text \<open>werkzeug's \<open>_plain_int\<close>: ASCII digits with at most a minus sign in front.\<close>

definition plain_int :: "pystr \<Rightarrow> int option" where
  "plain_int v =
     (case v of
        [] \<Rightarrow> None
      | c # cs \<Rightarrow>
          if c = 45 then
            (if cs \<noteq> [] \<and> list_all is_digit cs
             then Some (- int (foldl (\<lambda>a d. a * 10 + (d - 48)) 0 cs)) else None)
          else if list_all is_digit v
          then Some (int (foldl (\<lambda>a d. a * 10 + (d - 48)) 0 v)) else None)"

text \<open>
  The span \<open>[start, stop)\<close> that is served for the value of a \<open>Range\<close> header and the
  length of the file, or nothing when the header does not parse, has a unit other than
  \<open>bytes\<close>, holds several ranges or cannot be satisfied: the cases in which
  \<open>RequestedRangeNotSatisfiable\<close> is raised.
\<close>

definition flask_range :: "pystr \<Rightarrow> int \<Rightarrow> (int \<times> int) option" where
  "flask_range v len =
     (if 61 \<notin> set v then None
      else
        (case str_partition v 61 of
           (units0, _, rng) \<Rightarrow>
             (let units = py_lower (py_strip units0);
                  item = py_strip rng
              in if 44 \<in> set rng \<or> 45 \<notin> set item then None
                 else if hd item = 45 then
                   (case plain_int item of
                      None \<Rightarrow> None
                    | Some begin \<Rightarrow>
                        (let start = (if begin < 0 then begin + len else begin)
                         in if units = lit ''bytes'' \<and> 0 \<le> start \<and> start < len
                            then Some (start, len) else None))
                 else
                   (case str_partition item 45 of
                      (begin_str, _, end_str) \<Rightarrow>
                        (case plain_int (py_strip begin_str) of
                           None \<Rightarrow> None
                         | Some begin \<Rightarrow>
                             if py_strip end_str = [] then
                               (if units = lit ''bytes'' \<and> begin < len
                                then Some (begin, len) else None)
                             else
                               (case plain_int (py_strip end_str) of
                                  None \<Rightarrow> None
                                | Some end0 \<Rightarrow>
                                    if end0 + 1 \<le> begin then None
                                    else if units = lit ''bytes'' \<and> begin < len
                                    then Some (begin, min (end0 + 1) len) else None))))))"

definition flask_send_file ::
  "path \<Rightarrow> bytes \<Rightarrow> pystr option \<Rightarrow> pystr option \<Rightarrow> exn + response" where
  "flask_send_file p content mt range_header =
     (let whole = \<lparr>status = 200, mimetype = mt,
                   headers = [(lit ''Content-Length'', py_str (int (length content)))],
                   body = Data content\<rparr>
      in case range_header of
           None \<Rightarrow> Inr whole
         | Some v \<Rightarrow>
             if content = [] then Inr whole
             else
               (case flask_range v (int (length content)) of
                  None \<Rightarrow> Inl RequestedRangeNotSatisfiable
                | Some (start, stop) \<Rightarrow>
                    Inr \<lparr>status = 206, mimetype = mt,
                         headers =
                           [(lit ''Content-Length'', py_str (stop - start)),
                            (lit ''Accept-Ranges'', lit ''bytes''),
                            (lit ''Content-Range'',
                               lit ''bytes '' @ py_str start @ lit ''-'' @ py_str (stop - 1)
                                 @ lit ''/'' @ py_str (int (length content)))],
                         body = Data (take (nat (stop - start)) (drop (nat start) content))\<rparr>))"

section \<open>A concrete environment\<close>

text \<open>
  An environment and a world on which the functions are evaluated: every external
  program succeeds; \<open>sox\<close> writes its fourth argument, \<open>ffmpeg\<close> its last one, and
  \<open>ffprobe\<close> prints a duration and writes nothing; \<open>send_file\<close> is the model of
  Flask's.
\<close>

definition demo_tool :: "pystr list \<Rightarrow> filesys \<Rightarrow> (int \<times> pystr \<times> pystr) \<times> filesys" where
  "demo_tool cmd fs =
     (case cmd of
        [] \<Rightarrow> ((1, [], []), fs)
      | prog # _ \<Rightarrow>
          if prog = lit ''ffprobe'' then ((0, lit ''2.5'', []), fs)
          else if prog = lit ''sox'' then ((0, [], []), fs(cmd ! 3 \<mapsto> [82, 73, 70, 70]))
          else ((0, [], []), fs(last cmd \<mapsto> [0, 0, 0, 24])))"

definition demo_ext :: ext where
  "demo_ext =
     \<lparr>tool = demo_tool, APP_ROOT = lit ''/app'', DOWNLOADS_DIR = lit ''/home/u/Downloads'',
      wave_open = (\<lambda>content. None),
      py_float = (\<lambda>s. if s = lit ''2.5'' then Some (5 / 2) else None),
      guess_type = (\<lambda>p. Some (lit ''audio/x-wav'')),
      send_file = flask_send_file, seek_limit = 2 ^ 40\<rparr>"

text \<open>The video \<open>/v/a.mp4\<close>, whose identifier is \<open>L3YvYS5tcDQ\<close>, and its base audio.\<close>

definition demo_files :: filesys where
  "demo_files =
     [lit ''/v/a.mp4'' \<mapsto> [0, 0, 0, 32],
      lit ''/app/temp/audio/L3YvYS5tcDQ.wav'' \<mapsto> [10, 11, 12, 13, 14, 15, 16, 17, 18, 19]]"

definition demo_world :: world where
  "demo_world = \<lparr>files = demo_files, cmd_log = []\<rparr>"

section \<open>Properties of the responses\<close>

lemma abort_json_status [simp]: "status (abort_json st m) = st"
  by (simp add: abort_json_def jsonify_def)

lemma abort_json_body [simp]: "body (abort_json st m) = Json (JObj [(''error'', JStr m)])"
  by (simp add: abort_json_def jsonify_def)

lemma jsonify_status [simp]: "status (jsonify kvs) = 200"
  by (simp add: jsonify_def)

section \<open>The semitone check of the pitch route\<close>

lemma base_audio_message_differs: "lit ''Base audio not extracted yet'' \<noteq> msg_semitones_range"
  by (simp add: msg_semitones_range_def)

text \<open>
  Claim C7. A pitch request with an identifier and an integer semitone value below -8 or
  above 8 is answered with status 400 and the message about the range of
  \<open>semitones\<close>, and the world is the one before the request: no external program has
  run and no file was touched. A value from -8 to 8 never gets that answer.
\<close>

theorem api_pitch_semitones_check:
  "(s < - 8 \<or> 8 < s \<longrightarrow>
      api_pitch e (Some file_id) (Some s) w = (abort_json 400 msg_semitones_range, w))
   \<and> (- 8 \<le> s \<and> s \<le> 8 \<longrightarrow>
      fst (api_pitch e (Some file_id) (Some s) w) \<noteq> abort_json 400 msg_semitones_range)"
proof (intro conjI impI)
  assume "s < - 8 \<or> 8 < s"
  then show "api_pitch e (Some file_id) (Some s) w = (abort_json 400 msg_semitones_range, w)"
    by (auto simp: api_pitch_def)
next
  assume r: "- 8 \<le> s \<and> s \<le> 8"
  let ?r = "fst (api_pitch e (Some file_id) (Some s) w)"
  have "status ?r \<noteq> 400
        \<or> body ?r = Json (JObj [(''error'', JStr (lit ''Base audio not extracted yet''))])"
    using r by (auto simp: api_pitch_def Let_def split: prod.splits sum.splits)
  then show "?r \<noteq> abort_json 400 msg_semitones_range"
    using base_audio_message_differs by (auto simp del: map_eq_conv list.map)
qed

theorem api_pitch_semitones_check_witness:
  "api_pitch demo_ext (Some (lit ''L3YvYS5tcDQ'')) (Some 9) demo_world
     = (abort_json 400 msg_semitones_range, demo_world)
   \<and> api_pitch demo_ext (Some (lit ''L3YvYS5tcDQ'')) (Some (- 9)) demo_world
     = (abort_json 400 msg_semitones_range, demo_world)
   \<and> fst (api_pitch demo_ext (Some (lit ''L3YvYS5tcDQ'')) (Some 8) demo_world)
     \<noteq> abort_json 400 msg_semitones_range"
  using api_pitch_semitones_check [of 9 demo_ext "lit ''L3YvYS5tcDQ''" demo_world]
    api_pitch_semitones_check [of "- 9" demo_ext "lit ''L3YvYS5tcDQ''" demo_world]
    api_pitch_semitones_check [of 8 demo_ext "lit ''L3YvYS5tcDQ''" demo_world]
  by simp

section \<open>The identity codec is reversible\<close>

lemma mod64_le: "(x::nat) mod 64 \<le> 63"
proof -
  have "x mod 64 < 64" by simp
  then show ?thesis by linarith
qed

lemma mod64_lt128: "(x::nat) mod 64 < 128"
  using mod64_le [of x] by linarith

lemma div_mod_scale: "(m::nat) div 64 * (64 * k) + m mod 64 * k = m * k"
proof -
  have "m div 64 * (64 * k) + m mod 64 * k = (m div 64 * 64 + m mod 64) * k"
    by (simp only: add_mult_distrib mult.assoc)
  also have "\<dots> = m * k" by (simp only: div_mult_mod_eq)
  finally show ?thesis .
qed

lemma split3: "(c::nat) div 4096 * 4096 + c div 64 mod 64 * 64 + c mod 64 = c"
proof -
  have a: "c div 4096 = c div 64 div 64" by (simp add: div_mult2_eq)
  have "c div 64 div 64 * (64 * 64) + c div 64 mod 64 * 64 = c div 64 * 64"
    by (rule div_mod_scale)
  then show ?thesis by (simp add: a)
qed

lemma split4:
  "(c::nat) div 262144 * 262144 + c div 4096 mod 64 * 4096 + c div 64 mod 64 * 64 + c mod 64 = c"
proof -
  have a: "c div 262144 = c div 4096 div 64" by (simp add: div_mult2_eq)
  have "c div 4096 div 64 * (64 * 4096) + c div 4096 mod 64 * 4096 = c div 4096 * 4096"
    by (rule div_mod_scale)
  then have "c div 262144 * 262144 + c div 4096 mod 64 * 4096 = c div 4096 * 4096"
    by (simp add: a)
  then show ?thesis using split3 [of c] by simp
qed

lemma utf8_char_roundtrip:
  assumes "utf8_ok c"
  shows "\<exists>bs. utf8_encode_char c = Some bs \<and> bs \<noteq> [] \<and> utf8_next (bs @ rest) = Some (c, rest)
           \<and> list_all (\<lambda>b. b < 256) bs"
proof -
  from assms have ns: "\<not> is_surrogate c" and lt: "c < 0x110000" by (simp_all add: utf8_ok_def)
  consider "c < 0x80" | "0x80 \<le> c" "c < 0x800" | "0x800 \<le> c" "c < 0x10000" | "0x10000 \<le> c"
    by linarith
  then show ?thesis
  proof cases
    case 1
    then show ?thesis by (simp add: utf8_encode_char_def utf8_next.simps)
  next
    case 2
    have d: "c div 64 < 32" "2 \<le> c div 64" using 2 by simp_all
    have e: "c div 64 * 64 + c mod 64 = c" by simp
    let ?bs = "[0xC0 + c div 64, 0x80 + c mod 64]"
    have enc: "utf8_encode_char c = Some ?bs" using 2 by (simp add: utf8_encode_char_def)
    have nx: "utf8_next (?bs @ rest) = Some (c, rest)"
      using d e by (simp add: utf8_next.simps is_cont_def)
    have bd: "list_all (\<lambda>b. b < 256) ?bs" using d by (simp add: mod64_lt128)
    show ?thesis using enc nx bd by blast
  next
    case 3
    have d: "c div 4096 < 16" using 3 by simp
    show ?thesis using 3 ns d
      by (simp add: utf8_encode_char_def utf8_next.simps is_cont_def Let_def split3 mod64_le mod64_lt128)
  next
    case 4
    have d: "c div 262144 < 5" using lt by simp
    show ?thesis using 4 ns lt d
      by (simp add: utf8_encode_char_def utf8_next.simps is_cont_def Let_def split4 mod64_le mod64_lt128)
  qed
qed

lemma bytes_decode_utf8_next:
  "bs \<noteq> [] \<Longrightarrow> utf8_next bs = Some (c, rest) \<Longrightarrow> bytes_decode_utf8 rest = Inr cs
   \<Longrightarrow> bytes_decode_utf8 bs = Inr (c # cs)"
  by (cases bs) simp_all

lemma utf8_roundtrip:
  "list_all utf8_ok p \<Longrightarrow>
     \<exists>raw. str_encode_utf8 p = Inr raw \<and> bytes_decode_utf8 raw = Inr p
       \<and> list_all (\<lambda>b. b < 256) raw"
proof (induction p)
  case Nil
  then show ?case by simp
next
  case (Cons c cs)
  then obtain raw where raw: "str_encode_utf8 cs = Inr raw" "bytes_decode_utf8 raw = Inr cs"
      "list_all (\<lambda>b. b < 256) raw" by auto
  from Cons.prems have "utf8_ok c" by simp
  from utf8_char_roundtrip [OF this, of raw] obtain bs where
    bs: "utf8_encode_char c = Some bs" "bs \<noteq> []" "utf8_next (bs @ raw) = Some (c, raw)"
      "list_all (\<lambda>b. b < 256) bs" by blast
  have "bytes_decode_utf8 (bs @ raw) = Inr (c # cs)"
    using bs(2,3) raw(2) by (intro bytes_decode_utf8_next) simp_all
  then show ?case using bs raw by simp
qed

lemma enc_chr_alphabet: "i < 64 \<Longrightarrow> urlsafe_alphabet (enc_chr i)"
  unfolding enc_chr_def urlsafe_alphabet_def urlsafe_encode_translation_def table_b2a_base64_def
  by (simp split: if_splits) linarith

lemma enc_chr_value:
  "i < 64 \<Longrightarrow> table_a2b_base64 (urlsafe_decode_translation (enc_chr i)) = Some i"
  unfolding enc_chr_def urlsafe_decode_translation_def urlsafe_encode_translation_def
    table_b2a_base64_def table_a2b_base64_def
  by (simp split: if_splits) linarith

lemma alphabet_not_pad: "urlsafe_alphabet c \<Longrightarrow> urlsafe_decode_translation c \<noteq> 61 \<and> c \<noteq> 61 \<and> c \<noteq> 47 \<and> c < 128"
  unfolding urlsafe_alphabet_def urlsafe_decode_translation_def by auto


lemma dec_chr_facts: "i < 64 \<Longrightarrow> dec_chr i \<noteq> 61 \<and> table_a2b_base64 (dec_chr i) = Some i"
  using enc_chr_value [of i] alphabet_not_pad [OF enc_chr_alphabet, of i] by (simp add: dec_chr_def)

lemma a2b_data:
  "i < 64 \<Longrightarrow> a2b_loop (dec_chr i # cs) q l p out =
     (if q = 0 then a2b_loop cs 1 i 0 out
      else if q = 1 then a2b_loop cs 2 (i mod 16) 0 (out @ [(l * 4 + i div 16) mod 256])
      else if q = 2 then a2b_loop cs 3 (i mod 4) 0 (out @ [(l * 16 + i div 4) mod 256])
      else a2b_loop cs 0 0 0 (out @ [(l * 64 + i) mod 256]))"
  using dec_chr_facts [of i] by simp

lemma a2b_pad:
  "a2b_loop (61 # cs) q l p out =
     (if 2 \<le> q \<and> 4 \<le> q + (p + 1) then Inr out
      else a2b_loop cs q l (if 2 \<le> q then p + 1 else p) out)"
  by simp

lemma sextets:
  assumes "(a::nat) < 256" "(b::nat) < 256" "(c::nat) < 256"
  shows "a div 4 < 64" "(a mod 4) * 16 + b div 16 < 64" "(b mod 16) * 4 + c div 64 < 64" "c mod 64 < 64"
    "(a mod 4) * 16 < 64" "(b mod 16) * 4 < 64"
proof -
  have "a mod 4 < 4" "b mod 16 < 16" by simp_all
  moreover have "b div 16 < 16" "c div 64 < 4" "a div 4 < 64" using assms by simp_all
  ultimately show "a div 4 < 64" "(a mod 4) * 16 + b div 16 < 64" "(b mod 16) * 4 + c div 64 < 64" "c mod 64 < 64"
    "(a mod 4) * 16 < 64" "(b mod 16) * 4 < 64"
    by simp_all
qed

lemma octet1: "a < 256 \<Longrightarrow> b < 256 \<Longrightarrow> (a div 4 * 4 + ((a mod 4) * 16 + b div 16) div 16) mod 256 = (a::nat)"
proof -
  assume a: "a < 256" "b < 256"
  have "b div 16 < 16" using a by simp
  then have "((a mod 4) * 16 + b div 16) div 16 = a mod 4" by simp
  then show ?thesis using a by simp
qed

lemma octet2: "b < 256 \<Longrightarrow> c < 256 \<Longrightarrow>
   (((a mod 4) * 16 + b div 16) mod 16 * 16 + ((b mod 16) * 4 + c div 64) div 4) mod 256 = (b::nat)"
proof -
  assume a: "b < 256" "c < 256"
  have x: "b div 16 < 16" "c div 64 < 4" using a by simp_all
  have "((a mod 4) * 16 + b div 16) mod 16 = b div 16" using x by simp
  moreover have "((b mod 16) * 4 + c div 64) div 4 = b mod 16" using x by simp
  ultimately show ?thesis using a by simp
qed

lemma octet3: "c < 256 \<Longrightarrow> (((b mod 16) * 4 + c div 64) mod 4 * 64 + c mod 64) mod 256 = (c::nat)"
proof -
  assume a: "c < 256"
  have x: "c div 64 < 4" using a by simp
  have "((b mod 16) * 4 + c div 64) mod 4 = c div 64" using x by simp
  then show ?thesis using a by simp
qed

lemma octet1': "a < 256 \<Longrightarrow> (a div 4 * 4 + ((a mod 4) * 16) div 16) mod 256 = (a::nat)"
  using octet1 [of a 0] by simp

lemma octet2': "b < 256 \<Longrightarrow>
   (((a mod 4) * 16 + b div 16) mod 16 * 16 + ((b mod 16) * 4) div 4) mod 256 = (b::nat)"
  using octet2 [of b 0 a] by simp


lemma b2a_unfold:
  "map urlsafe_encode_translation (b2a_base64 [a]) = [enc_chr (a div 4), enc_chr ((a mod 4) * 16), 61, 61]"
  "map urlsafe_encode_translation (b2a_base64 [a, b]) =
     [enc_chr (a div 4), enc_chr ((a mod 4) * 16 + b div 16), enc_chr ((b mod 16) * 4), 61]"
  "map urlsafe_encode_translation (b2a_base64 (a # b # c # rest)) =
     [enc_chr (a div 4), enc_chr ((a mod 4) * 16 + b div 16),
      enc_chr ((b mod 16) * 4 + c div 64), enc_chr (c mod 64)]
     @ map urlsafe_encode_translation (b2a_base64 rest)"
  by (simp_all add: enc_chr_def urlsafe_encode_translation_def)

lemma pad_translated: "urlsafe_decode_translation 61 = 61"
  by (simp add: urlsafe_decode_translation_def)

lemma a2b_roundtrip:
  "list_all (\<lambda>b. b < 256) bs \<Longrightarrow>
     a2b_loop (map urlsafe_decode_translation (urlsafe_b64encode bs)) 0 0 0 out = Inr (out @ bs)"
proof (induction bs arbitrary: out rule: b2a_base64.induct)
  case 1
  then show ?case by (simp add: urlsafe_b64encode_def)
next
  case (2 a)
  then have a: "a < 256" by simp
  note s = sextets [OF a a a]
  show ?case
    unfolding urlsafe_b64encode_def b2a_unfold list.map pad_translated dec_chr_def [symmetric]
    using s a by (simp del: a2b_loop.simps(2) add: a2b_data a2b_pad octet1')
next
  case (3 a b)
  then have a: "a < 256" "b < 256" by simp_all
  note s = sextets [OF a a(2)]
  show ?case
    unfolding urlsafe_b64encode_def b2a_unfold list.map pad_translated dec_chr_def [symmetric]
    using s a by (simp del: a2b_loop.simps(2) add: a2b_data a2b_pad octet1 octet2')
next
  case (4 a b c rest)
  then have a: "a < 256" "b < 256" "c < 256" and r: "list_all (\<lambda>b. b < 256) rest" by simp_all
  note s = sextets [OF a]
  have "a2b_loop (map urlsafe_decode_translation (urlsafe_b64encode (a # b # c # rest))) 0 0 0 out
        = a2b_loop (map urlsafe_decode_translation (urlsafe_b64encode rest)) 0 0 0 (out @ [a, b, c])"
    unfolding urlsafe_b64encode_def b2a_unfold list.map map_append append.simps dec_chr_def [symmetric]
    using s a by (simp del: a2b_loop.simps(2) add: a2b_data a2b_pad octet1 octet2 octet3)
  then show ?case using "4.IH" [OF r, of "out @ [a, b, c]"] by simp
qed


lemma neg_mod4: "(- int (4 + n)) mod 4 = (- int n) mod 4"
proof -
  have "- int (4 + n) = - int n + (- 1) * 4" by simp
  then show ?thesis by (simp only: mod_mult_self1)
qed

lemma encode_shape:
  "list_all (\<lambda>b. b < 256) bs \<Longrightarrow>
     \<exists>chars. urlsafe_b64encode bs = chars @ replicate (nat ((- int (length chars)) mod 4)) 61
       \<and> list_all urlsafe_alphabet chars"
proof (induction bs rule: b2a_base64.induct)
  case 1
  then show ?case by (simp add: urlsafe_b64encode_def)
next
  case (2 a)
  then have a: "a < 256" by simp
  note s = sextets [OF a a a]
  let ?cs = "[enc_chr (a div 4), enc_chr ((a mod 4) * 16)]"
  have "urlsafe_b64encode [a] = ?cs @ replicate (nat ((- int (length ?cs)) mod 4)) 61"
    unfolding urlsafe_b64encode_def b2a_unfold by (simp add: numeral_2_eq_2)
  moreover have "list_all urlsafe_alphabet ?cs" using s by (simp add: enc_chr_alphabet)
  ultimately show ?case by blast
next
  case (3 a b)
  then have a: "a < 256" "b < 256" by simp_all
  note s = sextets [OF a a(2)]
  let ?cs = "[enc_chr (a div 4), enc_chr ((a mod 4) * 16 + b div 16), enc_chr ((b mod 16) * 4)]"
  have "urlsafe_b64encode [a, b] = ?cs @ replicate (nat ((- int (length ?cs)) mod 4)) 61"
    unfolding urlsafe_b64encode_def b2a_unfold by simp
  moreover have "list_all urlsafe_alphabet ?cs" using s by (simp add: enc_chr_alphabet)
  ultimately show ?case by blast
next
  case (4 a b c rest)
  then have a: "a < 256" "b < 256" "c < 256" and r: "list_all (\<lambda>b. b < 256) rest" by simp_all
  note s = sextets [OF a]
  from "4.IH" [OF r] obtain chars where
    ch: "urlsafe_b64encode rest = chars @ replicate (nat ((- int (length chars)) mod 4)) 61"
      "list_all urlsafe_alphabet chars" by blast
  let ?g = "[enc_chr (a div 4), enc_chr ((a mod 4) * 16 + b div 16),
             enc_chr ((b mod 16) * 4 + c div 64), enc_chr (c mod 64)]"
  have l: "length (?g @ chars) = 4 + length chars" by simp
  have "urlsafe_b64encode (a # b # c # rest) = ?g @ urlsafe_b64encode rest"
    unfolding urlsafe_b64encode_def b2a_unfold by simp
  then have "urlsafe_b64encode (a # b # c # rest)
        = (?g @ chars) @ replicate (nat ((- int (length (?g @ chars))) mod 4)) 61"
    unfolding l neg_mod4 using ch(1) by simp
  moreover have "list_all urlsafe_alphabet (?g @ chars)"
    using s ch(2) by (simp add: enc_chr_alphabet)
  ultimately show ?case by blast
qed

lemma rstrip_pads:
  assumes "list_all urlsafe_alphabet chars"
  shows "rstrip 61 (chars @ replicate k 61) = chars"
proof -
  have np: "\<forall>x\<in>set (rev chars). \<not> x = 61"
    using assms alphabet_not_pad by (auto simp: list_all_iff)
  have "dropWhile (\<lambda>x. x = 61) (rev (chars @ replicate k 61))
        = dropWhile (\<lambda>x. x = 61) (replicate k 61 @ rev chars)" by simp
  also have "\<dots> = dropWhile (\<lambda>x. x = 61) (rev chars)"
    by (rule dropWhile_append2) simp
  also have "\<dots> = rev chars"
    using np by (cases "rev chars") auto
  finally show ?thesis by (simp add: rstrip_def)
qed

text \<open>
  Claim C1. For every path whose code points UTF-8 can express, encoding succeeds and
  decoding the token gives the path back; the token consists of characters of the
  URL-safe alphabet only, so it holds neither \<open>/\<close> (47) nor the pad character \<open>=\<close> (61).
  The token is a function of the path: the same path always gives the same token.
\<close>

theorem codec_roundtrip:
  assumes "list_all utf8_ok p"
  shows "\<exists>t. b64url_encode_path p = Inr t \<and> b64url_decode_path t = Inr p
           \<and> list_all urlsafe_alphabet t \<and> 47 \<notin> set t \<and> 61 \<notin> set t"
proof -
  from utf8_roundtrip [OF assms] obtain raw where
    raw: "str_encode_utf8 p = Inr raw" "bytes_decode_utf8 raw = Inr p"
      "list_all (\<lambda>b. b < 256) raw" by blast
  from encode_shape [OF raw(3)] obtain chars where
    ch: "urlsafe_b64encode raw = chars @ replicate (nat ((- int (length chars)) mod 4)) 61"
      "list_all urlsafe_alphabet chars" by blast
  have ascii: "list_all (\<lambda>b. b < 128) (urlsafe_b64encode raw)"
    unfolding ch(1) using ch(2) alphabet_not_pad by (auto simp: list_all_iff)
  have enc: "b64url_encode_path p = Inr chars"
    using raw(1) ascii rstrip_pads [OF ch(2)]
    by (simp add: b64url_encode_path_def bytes_decode_ascii_def ch(1) del: list_all_append)
  have "urlsafe_b64decode (urlsafe_b64encode raw) = Inr raw"
    using ascii a2b_roundtrip [OF raw(3), of "[]"]
    by (simp add: urlsafe_b64decode_def a2b_base64_def)
  then have dec: "b64url_decode_path chars = Inr p"
    using raw(2) by (simp add: b64url_decode_path_def ch(1) [symmetric])
  have "47 \<notin> set chars" "61 \<notin> set chars"
    using ch(2) alphabet_not_pad by (auto simp: list_all_iff)
  with enc dec ch(2) show ?thesis by blast
qed


theorem codec_roundtrip_witness:
  "list_all utf8_ok [47, 233, 8364, 128512]
   \<and> (\<exists>t. b64url_encode_path [47, 233, 8364, 128512] = Inr t
          \<and> b64url_decode_path t = Inr [47, 233, 8364, 128512]
          \<and> list_all urlsafe_alphabet t \<and> 47 \<notin> set t \<and> 61 \<notin> set t)"
  using codec_roundtrip [of "[47, 233, 8364, 128512]"]
  by (simp add: utf8_ok_def is_surrogate_def)

section \<open>What the decoder rejects\<close>

lemma data_value:
  "b64_data c \<Longrightarrow>
     urlsafe_decode_translation c \<noteq> 61
     \<and> (\<exists>v. table_a2b_base64 (urlsafe_decode_translation c) = Some v)"
proof -
  assume d: "b64_data c"
  have "table_a2b_base64 61 = None" by (simp add: table_a2b_base64_def)
  with d show ?thesis by (auto simp: b64_data_def)
qed

lemma a2b_skip:
  "61 \<notin> set cs \<Longrightarrow>
     a2b_loop (map urlsafe_decode_translation cs @ rest) q l p out
       = a2b_loop (map urlsafe_decode_translation (filter b64_data cs) @ rest) q l p out"
proof (induction cs arbitrary: q l p out)
  case Nil
  then show ?case by simp
next
  case (Cons c cs)
  then have ne: "c \<noteq> 61" and cs: "61 \<notin> set cs" by auto
  note ih = Cons.IH [OF cs]
  show ?case
  proof (cases "b64_data c")
    case True
    from data_value [OF True] obtain v where
      v: "urlsafe_decode_translation c \<noteq> 61"
        "table_a2b_base64 (urlsafe_decode_translation c) = Some v" by blast
    show ?thesis using True v by (simp add: ih)
  next
    case False
    then have n: "table_a2b_base64 (urlsafe_decode_translation c) = None"
      by (simp add: b64_data_def)
    have "urlsafe_decode_translation c \<noteq> 61"
      using ne by (simp add: urlsafe_decode_translation_def)
    then show ?thesis using False n by (simp add: ih)
  qed
qed

lemma a2b_data_step:
  assumes "b64_data c" and "q < 4"
  shows "\<exists>l1 out1. \<forall>xs. a2b_loop (urlsafe_decode_translation c # xs) q l 0 out
                          = a2b_loop xs ((q + 1) mod 4) l1 0 out1"
proof -
  from data_value [OF assms(1)] obtain v where
    v: "urlsafe_decode_translation c \<noteq> 61"
      "table_a2b_base64 (urlsafe_decode_translation c) = Some v" by blast
  consider "q = 0" | "q = 1" | "q = 2" | "q = 3" using assms(2) by linarith
  then show ?thesis
  proof cases
    case 1
    then have m: "(q + 1) mod 4 = 1" by simp
    have "\<forall>xs. a2b_loop (urlsafe_decode_translation c # xs) q l 0 out = a2b_loop xs 1 v 0 out"
      using v 1 by simp
    then show ?thesis unfolding m by blast
  next
    case 2
    then have m: "(q + 1) mod 4 = 2" by simp
    have "\<forall>xs. a2b_loop (urlsafe_decode_translation c # xs) q l 0 out
               = a2b_loop xs 2 (v mod 16) 0 (out @ [(l * 4 + v div 16) mod 256])"
      using v 2 by simp
    then show ?thesis unfolding m by blast
  next
    case 3
    then have m: "(q + 1) mod 4 = 3" by simp
    have "\<forall>xs. a2b_loop (urlsafe_decode_translation c # xs) q l 0 out
               = a2b_loop xs 3 (v mod 4) 0 (out @ [(l * 16 + v div 4) mod 256])"
      using v 3 by simp
    then show ?thesis unfolding m by blast
  next
    case 4
    then have m: "(q + 1) mod 4 = 0" by simp
    have "\<forall>xs. a2b_loop (urlsafe_decode_translation c # xs) q l 0 out
               = a2b_loop xs 0 0 0 (out @ [(l * 64 + v) mod 256])"
      using v 4 by simp
    then show ?thesis unfolding m by blast
  qed
qed

lemma a2b_data_run:
  "list_all b64_data ds \<Longrightarrow> q < 4 \<Longrightarrow>
     \<exists>l' out'. \<forall>rest. a2b_loop (map urlsafe_decode_translation ds @ rest) q l 0 out
                          = a2b_loop rest ((q + length ds) mod 4) l' 0 out'"
proof (induction ds arbitrary: q l out)
  case Nil
  then show ?case by auto
next
  case (Cons c cs)
  from Cons.prems have c: "b64_data c" and cs: "list_all b64_data cs" by simp_all
  let ?q = "(q + 1) mod 4"
  from a2b_data_step [OF c Cons.prems(2), of l out] obtain l1 out1 where
    s1: "\<And>xs. a2b_loop (urlsafe_decode_translation c # xs) q l 0 out
               = a2b_loop xs ?q l1 0 out1" by blast
  have "?q < 4" by simp
  from Cons.IH [OF cs this, of l1 out1] obtain l' out' where
    s2: "\<And>rest. a2b_loop (map urlsafe_decode_translation cs @ rest) ?q l1 0 out1
                 = a2b_loop rest ((?q + length cs) mod 4) l' 0 out'" by blast
  have "(?q + length cs) mod 4 = (q + 1 + length cs) mod 4" by (rule mod_add_left_eq)
  also have "\<dots> = (q + length (c # cs)) mod 4" by simp
  finally have e: "(?q + length cs) mod 4 = (q + length (c # cs)) mod 4" .
  have "\<forall>rest. a2b_loop (map urlsafe_decode_translation (c # cs) @ rest) q l 0 out
               = a2b_loop rest ((q + length (c # cs)) mod 4) l' 0 out'"
    unfolding e [symmetric] using s1 s2 by simp
  then show ?case by blast
qed

lemma a2b_pads:
  "a2b_loop (replicate k 61) 0 l 0 out = Inr out"
  "a2b_loop (replicate k 61) (Suc 0) l 0 out = Inl BinasciiError"
  "a2b_loop (replicate k 61) 2 l 0 out = (if 2 \<le> k then Inr out else Inl BinasciiError)"
  "a2b_loop (replicate k 61) 3 l 0 out = (if 1 \<le> k then Inr out else Inl BinasciiError)"
proof -
  show "a2b_loop (replicate k 61) 0 l 0 out = Inr out" by (induction k) simp_all
  show "a2b_loop (replicate k 61) (Suc 0) l 0 out = Inl BinasciiError" by (induction k) simp_all
  show "a2b_loop (replicate k 61) 2 l 0 out = (if 2 \<le> k then Inr out else Inl BinasciiError)"
  proof (cases k)
    case 0
    then show ?thesis by simp
  next
    case (Suc k')
    then show ?thesis by (cases k') simp_all
  qed
  show "a2b_loop (replicate k 61) 3 l 0 out = (if 1 \<le> k then Inr out else Inl BinasciiError)"
    by (cases k) simp_all
qed

text \<open>The outcome of the base64 step on data characters followed by \<open>k\<close> pads.\<close>

lemma a2b_data_padded:
  assumes "list_all b64_data ds"
  shows "\<exists>raw. \<forall>k. a2b_loop (map urlsafe_decode_translation ds @ replicate k 61) 0 0 0 []
                      = (if length ds mod 4 = 1 \<or> (length ds mod 4 = 2 \<and> k < 2)
                            \<or> (length ds mod 4 = 3 \<and> k < 1)
                         then Inl BinasciiError else Inr raw)"
proof -
  from a2b_data_run [OF assms, of 0 0 "[]"] obtain l' out' where
    r: "\<And>rest. a2b_loop (map urlsafe_decode_translation ds @ rest) 0 0 0 []
               = a2b_loop rest (length ds mod 4) l' 0 out'" by auto
  have "length ds mod 4 < 4" by simp
  then consider "length ds mod 4 = 0" | "length ds mod 4 = 1" | "length ds mod 4 = 2"
    | "length ds mod 4 = 3" by linarith
  then have "\<forall>k. a2b_loop (replicate k 61) (length ds mod 4) l' 0 out'
                  = (if length ds mod 4 = 1 \<or> (length ds mod 4 = 2 \<and> k < 2)
                        \<or> (length ds mod 4 = 3 \<and> k < 1)
                     then Inl BinasciiError else Inr out')"
  proof cases
    case 1
    then show ?thesis by (simp add: a2b_pads(1))
  next
    case 2
    then show ?thesis using a2b_pads(2) by simp
  next
    case 3
    then show ?thesis by (auto simp: a2b_pads(3))
  next
    case 4
    then show ?thesis by (auto simp: a2b_pads(4))
  qed
  then show ?thesis unfolding r by blast
qed

lemma decode_non_ascii:
  assumes "\<exists>c\<in>set t. 128 \<le> c"
  shows "b64url_decode_path t = Inl ValueError"
proof -
  from assms obtain c where c: "c \<in> set t" "128 \<le> c" by blast
  have "\<not> list_all (\<lambda>c. c < 128) (t @ replicate k 61)" for k
  proof -
    from c have "c \<in> set (t @ replicate k 61)" "\<not> c < 128" by simp_all
    then show ?thesis unfolding list_all_iff by blast
  qed
  then show ?thesis
    by (simp add: b64url_decode_path_def urlsafe_b64decode_def Let_def del: list_all_append)
qed


lemma decode_ascii_token:
  assumes "list_all (\<lambda>c. c < 128) t" and "61 \<notin> set t"
  shows "\<exists>raw. (\<forall>k. urlsafe_b64decode (t @ replicate k 61)
                      = (if length (filter b64_data t) mod 4 = 1
                            \<or> (length (filter b64_data t) mod 4 = 2 \<and> k < 2)
                            \<or> (length (filter b64_data t) mod 4 = 3 \<and> k < 1)
                         then Inl BinasciiError else Inr raw))
             \<and> (\<forall>k. urlsafe_b64decode (filter b64_data t @ replicate k 61)
                      = (if length (filter b64_data t) mod 4 = 1
                            \<or> (length (filter b64_data t) mod 4 = 2 \<and> k < 2)
                            \<or> (length (filter b64_data t) mod 4 = 3 \<and> k < 1)
                         then Inl BinasciiError else Inr raw))"
proof -
  let ?ds = "filter b64_data t"
  have d: "list_all b64_data ?ds" by (simp add: list_all_iff)
  from a2b_data_padded [OF d] obtain raw where
    raw: "\<And>k. a2b_loop (map urlsafe_decode_translation ?ds @ replicate k 61) 0 0 0 []
              = (if length ?ds mod 4 = 1 \<or> (length ?ds mod 4 = 2 \<and> k < 2)
                    \<or> (length ?ds mod 4 = 3 \<and> k < 1)
                 then Inl BinasciiError else Inr raw)" by blast
  have a1: "list_all (\<lambda>c. c < 128) (t @ replicate k 61)" for k
    using assms(1) by (auto simp: list_all_iff)
  have a2: "list_all (\<lambda>c. c < 128) (?ds @ replicate k 61)" for k
    using assms(1) by (auto simp: list_all_iff)
  have e1: "urlsafe_b64decode (t @ replicate k 61)
            = a2b_loop (map urlsafe_decode_translation ?ds @ replicate k 61) 0 0 0 []" for k
    using a1 [of k] a2b_skip [OF assms(2), of "replicate k 61" 0 0 0 "[]"]
    by (simp add: urlsafe_b64decode_def a2b_base64_def pad_translated del: list_all_append)
  have e2: "urlsafe_b64decode (?ds @ replicate k 61)
            = a2b_loop (map urlsafe_decode_translation ?ds @ replicate k 61) 0 0 0 []" for k
    using a2 [of k]
    by (simp add: urlsafe_b64decode_def a2b_base64_def pad_translated del: list_all_append)
  show ?thesis unfolding e1 e2 using raw by blast
qed

text \<open>
  Claim C9, as amended. Decoding fails for a token that holds a character above 127. For
  an ASCII token without \<open>=\<close> it fails when the data characters leave an incomplete
  group; otherwise the characters that are not data characters are skipped: the token
  decodes as the token without them, the base64 step succeeds, and the result is the
  UTF-8 decoding of its octets, which fails when they are not valid UTF-8. Every failure
  of the decoder is answered by the video lookup with status 400 and
  \<open>Invalid video id\<close>.
\<close>

theorem decode_rejects:
  "((\<exists>c\<in>set t. 128 \<le> c) \<longrightarrow> b64url_decode_path t = Inl ValueError)
   \<and> (list_all (\<lambda>c. c < 128) t \<and> 61 \<notin> set t \<and> incomplete_group t
        \<longrightarrow> b64url_decode_path t = Inl BinasciiError)
   \<and> (list_all (\<lambda>c. c < 128) t \<and> 61 \<notin> set t \<and> \<not> incomplete_group t
        \<longrightarrow> (\<exists>raw. urlsafe_b64decode
                      (filter b64_data t
                         @ replicate (nat ((- int (length (filter b64_data t))) mod 4)) 61)
                      = Inr raw
                    \<and> b64url_decode_path t = bytes_decode_utf8 raw)
            \<and> b64url_decode_path t = b64url_decode_path (filter b64_data t))
   \<and> (isl (b64url_decode_path t)
        \<longrightarrow> get_video_path_from_id_or_404 w t = Inl (abort_json 400 (lit ''Invalid video id'')))"
proof -
  have c1: "(\<exists>c\<in>set t. 128 \<le> c) \<longrightarrow> b64url_decode_path t = Inl ValueError"
    using decode_non_ascii [of t] by blast
  have c2: "list_all (\<lambda>c. c < 128) t \<and> 61 \<notin> set t \<and> incomplete_group t
            \<longrightarrow> b64url_decode_path t = Inl BinasciiError"
  proof
  assume a: "list_all (\<lambda>c. c < 128) t \<and> 61 \<notin> set t \<and> incomplete_group t"
  then obtain raw where
    "\<And>k. urlsafe_b64decode (t @ replicate k 61)
          = (if length (filter b64_data t) mod 4 = 1
                \<or> (length (filter b64_data t) mod 4 = 2 \<and> k < 2)
                \<or> (length (filter b64_data t) mod 4 = 3 \<and> k < 1)
             then Inl BinasciiError else Inr raw)"
    using decode_ascii_token [of t] by blast
  then show "b64url_decode_path t = Inl BinasciiError"
    using a by (simp add: b64url_decode_path_def incomplete_group_def Let_def)
  qed
  have c3: "list_all (\<lambda>c. c < 128) t \<and> 61 \<notin> set t \<and> \<not> incomplete_group t
            \<longrightarrow> (\<exists>raw. urlsafe_b64decode
                          (filter b64_data t
                             @ replicate (nat ((- int (length (filter b64_data t))) mod 4)) 61)
                          = Inr raw
                        \<and> b64url_decode_path t = bytes_decode_utf8 raw)
                \<and> b64url_decode_path t = b64url_decode_path (filter b64_data t)"
  proof
  assume a: "list_all (\<lambda>c. c < 128) t \<and> 61 \<notin> set t \<and> \<not> incomplete_group t"
  let ?ds = "filter b64_data t"
  let ?n = "length ?ds"
  let ?k = "nat ((- int (length t)) mod 4)"
  let ?k' = "nat ((- int ?n) mod 4)"
  from a decode_ascii_token [of t] obtain raw where
    r1: "\<And>k. urlsafe_b64decode (t @ replicate k 61)
              = (if ?n mod 4 = 1 \<or> (?n mod 4 = 2 \<and> k < 2) \<or> (?n mod 4 = 3 \<and> k < 1)
                 then Inl BinasciiError else Inr raw)"
    and r2: "\<And>k. urlsafe_b64decode (?ds @ replicate k 61)
              = (if ?n mod 4 = 1 \<or> (?n mod 4 = 2 \<and> k < 2) \<or> (?n mod 4 = 3 \<and> k < 1)
                 then Inl BinasciiError else Inr raw)"
    by blast
  from a have ok: "\<not> (?n mod 4 = 1 \<or> (?n mod 4 = 2 \<and> ?k < 2) \<or> (?n mod 4 = 3 \<and> ?k < 1))"
    by (simp add: incomplete_group_def Let_def)
  have ok': "\<not> (?n mod 4 = 1 \<or> (?n mod 4 = 2 \<and> ?k' < 2) \<or> (?n mod 4 = 3 \<and> ?k' < 1))"
  proof -
    have "?n mod 4 \<noteq> 1" using ok by blast
    moreover have "?n mod 4 = 2 \<Longrightarrow> (- int ?n) mod 4 = 2" by presburger
    moreover have "?n mod 4 = 3 \<Longrightarrow> (- int ?n) mod 4 = 1" by presburger
    ultimately show ?thesis by auto
  qed
  have d1: "urlsafe_b64decode (t @ replicate ?k 61) = Inr raw" using r1 [of ?k] ok by simp
  have d2: "urlsafe_b64decode (?ds @ replicate ?k' 61) = Inr raw" using r2 [of ?k'] ok' by simp
  have p1: "b64url_decode_path t = bytes_decode_utf8 raw"
    by (simp add: b64url_decode_path_def d1 Let_def)
  have p2: "b64url_decode_path ?ds = bytes_decode_utf8 raw"
    by (simp add: b64url_decode_path_def d2 Let_def)
  show "(\<exists>raw. urlsafe_b64decode (?ds @ replicate ?k' 61) = Inr raw
               \<and> b64url_decode_path t = bytes_decode_utf8 raw)
        \<and> b64url_decode_path t = b64url_decode_path ?ds"
    using d2 p1 p2 by auto
  qed
  have c4: "isl (b64url_decode_path t)
            \<longrightarrow> get_video_path_from_id_or_404 w t
                  = Inl (abort_json 400 (lit ''Invalid video id''))"
    by (cases "b64url_decode_path t") (simp_all add: get_video_path_from_id_or_404_def)
  show ?thesis by (rule conjI [OF c1 conjI [OF c2 conjI [OF c3 c4]]])
qed

theorem decode_rejects_witness:
  "b64url_decode_path [89, 233] = Inl ValueError
   \<and> b64url_decode_path (lit ''YWJj+'') = Inl BinasciiError
   \<and> b64url_decode_path (lit ''YW!j'') = Inl BinasciiError
   \<and> b64url_decode_path (lit ''YWJj!'') = b64url_decode_path (lit ''YWJj'')
   \<and> get_video_path_from_id_or_404 demo_world (lit ''YW!j'')
       = Inl (abort_json 400 (lit ''Invalid video id''))"
proof -
  note defs = incomplete_group_def b64_data_def table_a2b_base64_def
    urlsafe_decode_translation_def Let_def
  have h1: "\<exists>c\<in>set [89, 233::nat]. 128 \<le> c" by simp
  have h2: "list_all (\<lambda>c. c < 128) (lit ''YWJj+'') \<and> 61 \<notin> set (lit ''YWJj+'')
            \<and> incomplete_group (lit ''YWJj+'')"
    by (simp add: defs)
  have h3: "list_all (\<lambda>c. c < 128) (lit ''YW!j'') \<and> 61 \<notin> set (lit ''YW!j'')
            \<and> incomplete_group (lit ''YW!j'')"
    by (simp add: defs)
  have h4: "list_all (\<lambda>c. c < 128) (lit ''YWJj!'') \<and> 61 \<notin> set (lit ''YWJj!'')
            \<and> \<not> incomplete_group (lit ''YWJj!'')"
    by (simp add: defs)
  have fl: "filter b64_data (lit ''YWJj!'') = lit ''YWJj''" by (simp add: defs)
  note r1 = decode_rejects [of "[89, 233]" demo_world]
  note r2 = decode_rejects [of "lit ''YWJj+''" demo_world]
  note r3 = decode_rejects [of "lit ''YW!j''" demo_world]
  note r4 = decode_rejects [of "lit ''YWJj!''" demo_world]
  have a: "b64url_decode_path [89, 233] = Inl ValueError"
    by (rule r1 [THEN conjunct1, THEN mp, OF h1])
  have b: "b64url_decode_path (lit ''YWJj+'') = Inl BinasciiError"
    by (rule r2 [THEN conjunct2, THEN conjunct1, THEN mp, OF h2])
  have c: "b64url_decode_path (lit ''YW!j'') = Inl BinasciiError"
    by (rule r3 [THEN conjunct2, THEN conjunct1, THEN mp, OF h3])
  have d: "b64url_decode_path (lit ''YWJj!'') = b64url_decode_path (lit ''YWJj'')"
    using r4 [THEN conjunct2, THEN conjunct2, THEN conjunct1, THEN mp, OF h4, THEN conjunct2]
    unfolding fl .
  have "isl (b64url_decode_path (lit ''YW!j''))" by (simp only: c sum.disc)
  then have e: "get_video_path_from_id_or_404 demo_world (lit ''YW!j'')
                  = Inl (abort_json 400 (lit ''Invalid video id''))"
    by (rule r3 [THEN conjunct2, THEN conjunct2, THEN conjunct2, THEN mp])
  from a b c d e show ?thesis by (intro conjI)
qed

theorem decode_skips_foreign_characters:
  "\<not> urlsafe_alphabet 33 \<and> 33 \<in> set (lit ''YWJj!'')
   \<and> b64url_decode_path (lit ''YWJj!'') = Inr (lit ''abc'')"
  by code_simp

section \<open>Integers as text: printing and reading back\<close>

lemma digit_not_special: "is_digit c \<Longrightarrow> \<not> is_space c \<and> c \<noteq> 43 \<and> c \<noteq> 45 \<and> c \<noteq> 61"
  by (auto simp: is_digit_def is_space_def)

lemma nat_digits_digits: "list_all is_digit (nat_digits n)"
proof (induction n rule: nat_digits.induct)
  case (1 n)
  show ?case
  proof (cases "n < 10")
    case True
    then show ?thesis by (subst nat_digits.simps) (simp add: is_digit_def)
  next
    case False
    have "n mod 10 < 10" by simp
    then have "is_digit (48 + n mod 10)" unfolding is_digit_def by linarith
    with False "1.IH" show ?thesis by (subst nat_digits.simps) simp
  qed
qed

lemma nat_digits_nonempty: "nat_digits n \<noteq> []"
  by (subst nat_digits.simps) simp

lemma parse_digits_all:
  "list_all is_digit ds \<Longrightarrow>
     parse_digits ds acc = Some (foldl (\<lambda>a c. a * 10 + (c - 48)) acc ds)"
  by (induction ds arbitrary: acc) simp_all

lemma parse_number_all:
  "list_all is_digit ds \<Longrightarrow> ds \<noteq> [] \<Longrightarrow>
     parse_number ds = Some (foldl (\<lambda>a c. a * 10 + (c - 48)) 0 ds)"
  by (cases ds) (simp_all add: parse_number_def parse_digits_all)

lemma nat_digits_value: "foldl (\<lambda>a c. a * 10 + (c - 48)) 0 (nat_digits n) = n"
proof (induction n rule: nat_digits.induct)
  case (1 n)
  show ?case
  proof (cases "n < 10")
    case True
    then show ?thesis by (subst nat_digits.simps) simp
  next
    case False
    with "1.IH" show ?thesis by (subst nat_digits.simps) simp
  qed
qed

lemma parse_number_nat_digits: "parse_number (nat_digits n) = Some n"
  by (simp add: parse_number_all nat_digits_digits nat_digits_nonempty nat_digits_value)

lemma int_strip_digits:
  assumes "list_all is_digit ds" and that: "ds \<noteq> []"
  shows "int_strip (pre @ ds) = dropWhile is_space (pre @ ds)"
proof -
  let ?xs = "dropWhile is_space (pre @ ds)"
  have "last ds \<in> set ds" using that by simp
  then have nl: "\<not> is_space (last ds)"
    using assms digit_not_special by (auto simp: list_all_iff)
  have "\<exists>ys. ?xs = ys @ ds"
  proof (cases "\<forall>x\<in>set pre. is_space x")
    case True
    then have "?xs = dropWhile is_space ds" by simp
    moreover have "\<not> is_space (hd ds)"
      using assms that digit_not_special by (cases ds) (auto simp: list_all_iff)
    ultimately have "?xs = [] @ ds" using that by (cases ds) auto
    then show ?thesis by blast
  next
    case False
    then obtain x where "x \<in> set pre" "\<not> is_space x" by blast
    then have "?xs = dropWhile is_space pre @ ds" by (rule dropWhile_append1)
    then show ?thesis by blast
  qed
  then obtain ys where ys: "?xs = ys @ ds" by blast
  have ds: "ds = butlast ds @ [last ds]" using that by simp
  have "rev ?xs = last ds # rev (ys @ butlast ds)"
    unfolding ys by (subst ds) simp
  then have "dropWhile is_space (rev ?xs) = rev ?xs" using nl by simp
  then show ?thesis by (simp add: int_strip_def)
qed

lemma py_int_py_str: "py_int (py_str i) = Inr i"
proof (cases "i < 0")
  case True
  let ?ds = "nat_digits (nat (- i))"
  have "int_strip ([45] @ ?ds) = dropWhile is_space ([45] @ ?ds)"
    by (rule int_strip_digits [OF nat_digits_digits nat_digits_nonempty])
  then have "int_strip (45 # ?ds) = 45 # ?ds" by (simp add: is_space_def)
  then show ?thesis using True
    by (simp add: py_int_def py_str_def parse_number_nat_digits)
next
  case False
  let ?ds = "nat_digits (nat i)"
  obtain c cs where cs: "?ds = c # cs" using nat_digits_nonempty [of "nat i"] by (cases ?ds) auto
  have d: "is_digit c" using nat_digits_digits [of "nat i"] by (simp add: cs)
  have "int_strip ([] @ ?ds) = dropWhile is_space ([] @ ?ds)"
    by (rule int_strip_digits [OF nat_digits_digits nat_digits_nonempty])
  then have "int_strip ?ds = c # cs" using d digit_not_special [OF d] by (simp add: cs)
  moreover have "parse_number (c # cs) = Some (nat i)"
    using parse_number_nat_digits [of "nat i"] by (simp add: cs)
  ultimately show ?thesis using False digit_not_special [OF d]
    by (simp add: py_int_def py_str_def)
qed

section \<open>The range responder\<close>

lemma str_partition_split:
  assumes "sep \<notin> set a"
  shows "str_partition (a @ sep # b) sep = (a, [sep], b)"
proof -
  have all: "\<And>x. x \<in> set a \<Longrightarrow> x \<noteq> sep" using assms by blast
  have "takeWhile (\<lambda>c. c \<noteq> sep) (a @ sep # b) = takeWhile (\<lambda>c. c \<noteq> sep) a"
    by (rule takeWhile_tail) simp
  then have t: "takeWhile (\<lambda>c. c \<noteq> sep) (a @ sep # b) = a" using all by simp
  have "dropWhile (\<lambda>c. c \<noteq> sep) (a @ sep # b) = dropWhile (\<lambda>c. c \<noteq> sep) (sep # b)"
    using all by (rule dropWhile_append2)
  then have d: "dropWhile (\<lambda>c. c \<noteq> sep) (a @ sep # b) = sep # b" by simp
  show ?thesis unfolding str_partition_def t d by simp
qed

lemma py_str_nat: "py_str (int n) = nat_digits n"
  by (simp add: py_str_def)

lemma nat_digits_no_char: "\<not> is_digit c \<Longrightarrow> c \<notin> set (nat_digits n)"
  using nat_digits_digits [of n] by (auto simp: list_all_iff)




lemma send_file_range_partial:
  assumes "files w p = Some content" and "rh \<noteq> []"
    and "parse_range rh (int (length content)) = Inr (start, end1, len)"
    and "seek_read e content start len = Inr data"
  shows "send_file_range e w p mt (Some rh)
         = Inr \<lparr>status = 206, mimetype = mt,
                headers =
                  [(lit ''Content-Range'',
                      lit ''bytes '' @ py_str start @ lit ''-'' @ py_str end1 @ lit ''/''
                        @ py_str (int (length content))),
                   (lit ''Accept-Ranges'', lit ''bytes''),
                   (lit ''Content-Length'', py_str len),
                   (lit ''Cache-Control'', lit ''no-store'')],
                body = Data data\<rparr>"
  using assms by (simp add: send_file_range_def add_header_def)

lemma send_file_range_raises:
  assumes "files w p = Some content" and "rh \<noteq> []"
    and "parse_range rh (int (length content)) = Inr (start, end1, len)"
    and "seek_read e content start len = Inl ex"
  shows "send_file_range e w p mt (Some rh) = Inl ex"
  using assms by (simp add: send_file_range_def)



lemma parse_range_open:
  "parse_range (lit ''bytes='' @ py_str (int a) @ lit ''-'') file_size =
     Inr (int a, file_size - 1, file_size - 1 - int a + 1)"
proof -
  have h: "lit ''bytes='' @ py_str (int a) @ lit ''-'' = lit ''bytes'' @ 61 # (nat_digits a @ 45 # [])"
    by (simp add: py_str_nat)
  have p1: "str_partition (lit ''bytes'' @ 61 # (nat_digits a @ 45 # [])) 61
            = (lit ''bytes'', [61], nat_digits a @ 45 # [])"
    by (rule str_partition_split) simp
  have "45 \<notin> set (nat_digits a)" by (rule nat_digits_no_char) (simp add: is_digit_def)
  then have p2: "str_partition (nat_digits a @ 45 # []) 45 = (nat_digits a, [45], [])"
    by (rule str_partition_split)
  have i: "py_int (nat_digits a) = Inr (int a)"
    using py_int_py_str [of "int a"] by (simp add: py_str_nat)
  show ?thesis
    unfolding h parse_range_def p1 prod.case p2
    by (simp add: i nat_digits_nonempty Let_def)
qed

text \<open>
  Claim C5, as amended. For a stored file of size \<open>S\<close> and the request \<open>bytes=start-\<close>
  with \<open>start\<close> equal to \<open>S\<close> or \<open>S + 1\<close>, an offset that \<open>seek\<close> accepts, the end is
  clamped to \<open>S - 1\<close> and the start is left as requested: the answer has status 206,
  the header \<open>Content-Range: bytes start-(S-1)/S\<close> and an empty body.
\<close>

theorem range_start_beyond_size:
  assumes "files w p = Some content"
    and "start = length content \<or> start = length content + 1"
    and "int start < 2 ^ 63" and "int start \<le> seek_limit e"
  shows "\<exists>r. send_file_range e w p mt (Some (lit ''bytes='' @ py_str (int start) @ lit ''-''))
               = Inr r
           \<and> status r = 206
           \<and> map_of (headers r) (lit ''Content-Range'')
               = Some (lit ''bytes '' @ py_str (int start) @ lit ''-''
                         @ py_str (int (length content) - 1) @ lit ''/''
                         @ py_str (int (length content)))
           \<and> body r = Data []"
proof -
  let ?S = "int (length content)"
  let ?h = "lit ''bytes='' @ py_str (int start) @ lit ''-''"
  have ne: "?h \<noteq> []" by simp
  have pr: "parse_range ?h ?S = Inr (int start, ?S - 1, ?S - 1 - int start + 1)"
    by (rule parse_range_open)
  have rd: "seek_read e content (int start) (?S - 1 - int start + 1) = Inr []"
    using assms(2,3,4) by (auto simp: seek_read_def)
  show ?thesis
    unfolding send_file_range_partial [OF assms(1) ne pr rd] by simp
qed

theorem range_start_beyond_size_witness:
  "(\<exists>r. send_file_range demo_ext demo_world (lit ''/app/temp/audio/L3YvYS5tcDQ.wav'')
           (Some (lit ''audio/wav'')) (Some (lit ''bytes=10-'')) = Inr r
        \<and> status r = 206
        \<and> map_of (headers r) (lit ''Content-Range'') = Some (lit ''bytes 10-9/10'')
        \<and> body r = Data [])
   \<and> (\<exists>r. send_file_range demo_ext demo_world (lit ''/app/temp/audio/L3YvYS5tcDQ.wav'')
             (Some (lit ''audio/wav'')) (Some (lit ''bytes=11-'')) = Inr r
          \<and> status r = 206
          \<and> map_of (headers r) (lit ''Content-Range'') = Some (lit ''bytes 11-9/10'')
          \<and> body r = Data [])"
proof -
  have f: "files demo_world (lit ''/app/temp/audio/L3YvYS5tcDQ.wav'')
           = Some [10, 11, 12, 13, 14, 15, 16, 17, 18, 19]"
    by (simp add: demo_world_def demo_files_def)
  have s: "py_str 9 = lit ''9''" "py_str 10 = lit ''10''" "py_str 11 = lit ''11''"
    by (simp_all add: py_str_def nat_digits.simps)
  have l: "seek_limit demo_ext = 2 ^ 40" by (simp add: demo_ext_def)
  from range_start_beyond_size [OF f, of 10 demo_ext "Some (lit ''audio/wav'')"]
  have a: "\<exists>r. send_file_range demo_ext demo_world (lit ''/app/temp/audio/L3YvYS5tcDQ.wav'')
                 (Some (lit ''audio/wav'')) (Some (lit ''bytes=10-'')) = Inr r
              \<and> status r = 206
              \<and> map_of (headers r) (lit ''Content-Range'') = Some (lit ''bytes 10-9/10'')
              \<and> body r = Data []"
    by (simp add: s l)
  from range_start_beyond_size [OF f, of 11 demo_ext "Some (lit ''audio/wav'')"]
  have b: "\<exists>r. send_file_range demo_ext demo_world (lit ''/app/temp/audio/L3YvYS5tcDQ.wav'')
                 (Some (lit ''audio/wav'')) (Some (lit ''bytes=11-'')) = Inr r
              \<and> status r = 206
              \<and> map_of (headers r) (lit ''Content-Range'') = Some (lit ''bytes 11-9/10'')
              \<and> body r = Data []"
    by (simp add: s l)
  from a b show ?thesis by (rule conjI)
qed

theorem range_start_not_clamped:
  "send_file_range demo_ext demo_world (lit ''/app/temp/audio/L3YvYS5tcDQ.wav'')
     (Some (lit ''audio/wav'')) (Some (lit ''bytes=999999-'')) = Inl ValueError
   \<and> send_file_range demo_ext demo_world (lit ''/app/temp/audio/L3YvYS5tcDQ.wav'')
       (Some (lit ''audio/wav'')) (Some (lit ''bytes=10-''))
     = Inr \<lparr>status = 206, mimetype = Some (lit ''audio/wav''),
            headers = [(lit ''Content-Range'', lit ''bytes 10-9/10''),
                       (lit ''Accept-Ranges'', lit ''bytes''),
                       (lit ''Content-Length'', lit ''0''),
                       (lit ''Cache-Control'', lit ''no-store'')],
            body = Data []\<rparr>
   \<and> lit ''bytes 10-9/10'' \<noteq> lit ''bytes 9-9/10''"
proof -
  have f: "files demo_world (lit ''/app/temp/audio/L3YvYS5tcDQ.wav'')
           = Some [10, 11, 12, 13, 14, 15, 16, 17, 18, 19]"
    by (simp add: demo_world_def demo_files_def)
  have s: "py_str 0 = lit ''0''" "py_str 9 = lit ''9''" "py_str 10 = lit ''10''"
    "py_str 999999 = lit ''999999''"
    by (simp_all add: py_str_def nat_digits.simps)
  have l: "seek_limit demo_ext = 2 ^ 40" by (simp add: demo_ext_def)
  have pr1: "parse_range (lit ''bytes=999999-'')
               (int (length [10, 11, 12, 13, 14, 15, 16, 17, 18, 19::nat]))
             = Inr (999999, 9, - 999989)"
    using parse_range_open [of 999999 10] by (simp add: s)
  have rd1: "seek_read demo_ext [10, 11, 12, 13, 14, 15, 16, 17, 18, 19] 999999 (- 999989)
             = Inl ValueError"
    by (simp add: seek_read_def l)
  have a: "send_file_range demo_ext demo_world (lit ''/app/temp/audio/L3YvYS5tcDQ.wav'')
             (Some (lit ''audio/wav'')) (Some (lit ''bytes=999999-'')) = Inl ValueError"
    by (rule send_file_range_raises [OF f _ pr1 rd1]) simp
  have pr2: "parse_range (lit ''bytes=10-'')
               (int (length [10, 11, 12, 13, 14, 15, 16, 17, 18, 19::nat]))
             = Inr (10, 9, 0)"
    using parse_range_open [of 10 10] by (simp add: s)
  have rd2: "seek_read demo_ext [10, 11, 12, 13, 14, 15, 16, 17, 18, 19] 10 0 = Inr []"
    by (simp add: seek_read_def l)
  have b: "send_file_range demo_ext demo_world (lit ''/app/temp/audio/L3YvYS5tcDQ.wav'')
             (Some (lit ''audio/wav'')) (Some (lit ''bytes=10-''))
           = Inr \<lparr>status = 206, mimetype = Some (lit ''audio/wav''),
                  headers = [(lit ''Content-Range'', lit ''bytes 10-9/10''),
                             (lit ''Accept-Ranges'', lit ''bytes''),
                             (lit ''Content-Length'', lit ''0''),
                             (lit ''Cache-Control'', lit ''no-store'')],
                  body = Data []\<rparr>"
    by (subst send_file_range_partial [OF f _ pr2 rd2]) (simp_all add: s)
  have c: "lit ''bytes 10-9/10'' \<noteq> lit ''bytes 9-9/10''" by simp
  from a b c show ?thesis by (intro conjI)
qed
section \<open>Malformed range headers\<close>

lemma dropWhile_keeps: "x \<in> set xs \<Longrightarrow> \<not> P x \<Longrightarrow> x \<in> set (dropWhile P xs)"
  by (induction xs) auto

lemma int_strip_keeps: "c \<in> set s \<Longrightarrow> \<not> is_space c \<Longrightarrow> c \<in> set (int_strip s)"
proof -
  assume a: "c \<in> set s" "\<not> is_space c"
  then have "c \<in> set (dropWhile is_space s)" by (rule dropWhile_keeps)
  then have "c \<in> set (rev (dropWhile is_space s))" by simp
  then have "c \<in> set (dropWhile is_space (rev (dropWhile is_space s)))"
    using a(2) by (rule dropWhile_keeps)
  then show ?thesis by (simp add: int_strip_def)
qed

lemma parse_digits_foreign:
  "c \<in> set cs \<Longrightarrow> \<not> is_digit c \<Longrightarrow> c \<noteq> 95 \<Longrightarrow> parse_digits cs acc = None"
proof (induction cs acc rule: parse_digits.induct)
  case (1 acc)
  then show ?case by simp
next
  case (2 d ds acc)
  show ?case
  proof (cases "is_digit d")
    case True
    with "2.prems" have "c \<in> set ds" by auto
    with True "2.IH"(1) "2.prems" show ?thesis by simp
  next
    case nd: False
    show ?thesis
    proof (cases "d = 95")
      case False
      with nd show ?thesis by simp
    next
      case u: True
      show ?thesis
      proof (cases ds)
        case Nil
        with nd u show ?thesis by simp
      next
        case (Cons x xs)
        show ?thesis
        proof (cases "is_digit x")
          case False
          with nd u Cons show ?thesis by simp
        next
          case True
          from "2.prems" u Cons True have "c \<in> set xs" by auto
          with "2.IH"(2) [OF nd u Cons True] "2.prems" nd u Cons True show ?thesis by simp
        qed
      qed
    qed
  qed
qed

lemma parse_number_foreign:
  "c \<in> set s \<Longrightarrow> \<not> is_digit c \<Longrightarrow> c \<noteq> 95 \<Longrightarrow> parse_number s = None"
  by (cases s) (auto simp: parse_number_def parse_digits_foreign)

lemma py_int_non_numeric:
  assumes "c \<in> set s" and "\<not> numeric_char c"
  shows "py_int s = Inl ValueError"
proof -
  from assms(2) have n: "\<not> is_digit c" "c \<noteq> 43" "c \<noteq> 45" "c \<noteq> 95" "\<not> is_space c"
    by (simp_all add: numeric_char_def)
  from int_strip_keeps [OF assms(1) n(5)] have m: "c \<in> set (int_strip s)" .
  then obtain x xs where xs: "int_strip s = x # xs" by (cases "int_strip s") auto
  have whole: "parse_number (x # xs) = None"
    using m n(1,4) by (intro parse_number_foreign [of c]) (simp_all add: xs)
  have rest: "x = 43 \<or> x = 45 \<Longrightarrow> parse_number xs = None"
    using m n by (intro parse_number_foreign [of c]) (auto simp: xs)
  show ?thesis using whole rest by (auto simp: py_int_def xs)
qed

lemma parse_range_malformed:
  assumes "malformed_range h"
  shows "isl (parse_range h file_size)"
proof -
  obtain units sep1 range_spec where p1: "str_partition h 61 = (units, sep1, range_spec)"
    by (cases "str_partition h 61") auto
  obtain start_s sep2 end_s where p2: "str_partition range_spec 45 = (start_s, sep2, end_s)"
    by (cases "str_partition range_spec 45") auto
  from assms consider "units \<noteq> lit ''bytes''"
    | c where "c \<in> set start_s" "\<not> numeric_char c"
    | c where "c \<in> set end_s" "\<not> numeric_char c"
    by (auto simp: malformed_range_def range_units_def range_start_s_def range_end_s_def p1 p2)
  then show ?thesis
  proof cases
    case 1
    then show ?thesis by (simp add: parse_range_def p1)
  next
    case 2
    then have "py_int start_s = Inl ValueError" "start_s \<noteq> []"
      by (auto intro: py_int_non_numeric)
    then show ?thesis by (simp add: parse_range_def p1 p2)
  next
    case 3
    then have "py_int end_s = Inl ValueError" "end_s \<noteq> []"
      by (auto intro: py_int_non_numeric)
    then show ?thesis by (simp add: parse_range_def p1 p2 split: sum.splits)
  qed
qed

lemma malformed_range_calls_send_file:
  assumes "files w p = Some content" and "malformed_range h"
  shows "send_file_range e w p mt (Some h) = full_file_response e p content mt (Some h)"
proof -
  from parse_range_malformed [OF assms(2), of "int (length content)"]
  obtain ex where "parse_range h (int (length content)) = Inl ex"
    by (cases "parse_range h (int (length content))") auto
  then show ?thesis by (simp add: send_file_range_def assms(1) Let_def)
qed

text \<open>
  Claim C6 does not hold of the code. On a malformed \<open>Range\<close> header the responder
  falls into the branch that its comment calls the fallback to the full file, and there
  it calls \<open>send_file\<close> in the same request, which reads the same header: for
  \<open>items=0-5\<close> and \<open>bytes=abc-def\<close> on the ten-octet file the request ends in
  \<open>RequestedRangeNotSatisfiable\<close> (status 416), and for \<open>Bytes=0-1\<close>, whose unit the
  responder rejects and Flask accepts, in a partial response of two octets. Only the
  request without a header gets the full content with status 200.
\<close>

theorem malformed_range_not_served_in_full:
  "send_file_range demo_ext demo_world (lit ''/app/temp/audio/L3YvYS5tcDQ.wav'')
     (Some (lit ''audio/wav'')) (Some (lit ''items=0-5'')) = Inl RequestedRangeNotSatisfiable
   \<and> send_file_range demo_ext demo_world (lit ''/app/temp/audio/L3YvYS5tcDQ.wav'')
       (Some (lit ''audio/wav'')) (Some (lit ''bytes=abc-def'')) = Inl RequestedRangeNotSatisfiable
   \<and> send_file_range demo_ext demo_world (lit ''/app/temp/audio/L3YvYS5tcDQ.wav'')
       (Some (lit ''audio/wav'')) (Some (lit ''Bytes=0-1''))
     = Inr \<lparr>status = 206, mimetype = Some (lit ''audio/wav''),
            headers = [(lit ''Content-Length'', lit ''2''),
                       (lit ''Content-Range'', lit ''bytes 0-1/10''),
                       (lit ''Cache-Control'', lit ''no-store''),
                       (lit ''Accept-Ranges'', lit ''bytes'')],
            body = Data [10, 11]\<rparr>
   \<and> send_file_range demo_ext demo_world (lit ''/app/temp/audio/L3YvYS5tcDQ.wav'')
       (Some (lit ''audio/wav'')) None
     = Inr \<lparr>status = 200, mimetype = Some (lit ''audio/wav''),
            headers = [(lit ''Content-Length'', lit ''10''),
                       (lit ''Cache-Control'', lit ''no-store''),
                       (lit ''Accept-Ranges'', lit ''bytes'')],
            body = Data [10, 11, 12, 13, 14, 15, 16, 17, 18, 19]\<rparr>"
proof -
  let ?B = "lit ''/app/temp/audio/L3YvYS5tcDQ.wav''"
  let ?c = "[10, 11, 12, 13, 14, 15, 16, 17, 18, 19::nat]"
  let ?mt = "Some (lit ''audio/wav'')"
  have f: "files demo_world ?B = Some ?c"
    by (simp add: demo_world_def demo_files_def)
  have sf: "send_file demo_ext = flask_send_file" by (simp add: demo_ext_def)
  have m1: "malformed_range (lit ''items=0-5'')"
    by (simp add: malformed_range_def range_units_def str_partition_def)
  have m2: "malformed_range (lit ''bytes=abc-def'')"
    by (simp add: malformed_range_def range_units_def range_start_s_def str_partition_def
        numeric_char_def is_digit_def is_space_def)
  have m3: "malformed_range (lit ''Bytes=0-1'')"
    by (simp add: malformed_range_def range_units_def str_partition_def)
  have s: "py_str 0 = lit ''0''" "py_str 1 = lit ''1''" "py_str 2 = lit ''2''"
    "py_str 10 = lit ''10''"
    by (simp_all add: py_str_def nat_digits.simps)
  have r1: "flask_range (lit ''items=0-5'') 10 = None"
    by (simp add: flask_range_def str_partition_def py_strip_def py_lower_def py_isspace_def
        is_space_def plain_int_def is_digit_def Let_def)
  have r2: "flask_range (lit ''bytes=abc-def'') 10 = None"
    by (simp add: flask_range_def str_partition_def py_strip_def py_lower_def py_isspace_def
        is_space_def plain_int_def is_digit_def Let_def)
  have r3: "flask_range (lit ''Bytes=0-1'') 10 = Some (0, 2)"
    by (simp add: flask_range_def str_partition_def py_strip_def py_lower_def py_isspace_def
        is_space_def plain_int_def is_digit_def Let_def)
  have a: "send_file_range demo_ext demo_world ?B ?mt (Some (lit ''items=0-5''))
           = Inl RequestedRangeNotSatisfiable"
    unfolding malformed_range_calls_send_file [OF f m1] full_file_response_def sf
      flask_send_file_def
    using r1 by simp
  have b: "send_file_range demo_ext demo_world ?B ?mt (Some (lit ''bytes=abc-def''))
           = Inl RequestedRangeNotSatisfiable"
    unfolding malformed_range_calls_send_file [OF f m2] full_file_response_def sf
      flask_send_file_def
    using r2 by simp
  have c: "send_file_range demo_ext demo_world ?B ?mt (Some (lit ''Bytes=0-1''))
           = Inr \<lparr>status = 206, mimetype = ?mt,
                  headers = [(lit ''Content-Length'', lit ''2''),
                             (lit ''Content-Range'', lit ''bytes 0-1/10''),
                             (lit ''Cache-Control'', lit ''no-store''),
                             (lit ''Accept-Ranges'', lit ''bytes'')],
                  body = Data [10, 11]\<rparr>"
    unfolding malformed_range_calls_send_file [OF f m3] full_file_response_def sf
      flask_send_file_def
    using r3 by (simp add: s set_header_def)
  have d: "send_file_range demo_ext demo_world ?B ?mt None
           = Inr \<lparr>status = 200, mimetype = ?mt,
                  headers = [(lit ''Content-Length'', lit ''10''),
                             (lit ''Cache-Control'', lit ''no-store''),
                             (lit ''Accept-Ranges'', lit ''bytes'')],
                  body = Data ?c\<rparr>"
    using f
    by (simp add: send_file_range_def full_file_response_def sf flask_send_file_def
        set_header_def s)
  from a b c d show ?thesis by (intro conjI)
qed
section \<open>Artifacts that exist are not produced again\<close>

lemma run_cmd_log: "cmd_log (snd (run_cmd e cmd w)) = cmd_log w @ [cmd]"
  by (simp add: run_cmd_def split: prod.splits)

lemma extract_audio_wav_log:
  "length (cmd_log (snd (extract_audio_wav e v out w))) \<le> length (cmd_log w) + 1"
proof (cases "exists_path w out")
  case True
  then show ?thesis by (simp add: extract_audio_wav_def)
next
  case False
  let ?cmd = "[lit ''ffmpeg'', lit ''-y'', lit ''-i'', v, lit ''-vn'',
               lit ''-acodec'', lit ''pcm_s16le'', lit ''-ar'', lit ''48000'', out]"
  have "snd (extract_audio_wav e v out w) = snd (run_cmd e ?cmd w)"
    using False by (simp add: extract_audio_wav_def Let_def split: prod.splits)
  then show ?thesis by (simp only: run_cmd_log) simp
qed

lemma sox_pitch_shift_wav_log:
  "length (cmd_log (snd (sox_pitch_shift_wav e i out s w))) \<le> length (cmd_log w) + 1"
proof (cases "exists_path w out")
  case True
  then show ?thesis by (simp add: sox_pitch_shift_wav_def)
next
  case False
  let ?cmd = "[lit ''sox'', lit ''-G'', i, out, lit ''pitch'', py_str (s * 100)]"
  have "snd (sox_pitch_shift_wav e i out s w) = snd (run_cmd e ?cmd w)"
    using False by (simp add: sox_pitch_shift_wav_def Let_def split: prod.splits)
  then show ?thesis by (simp only: run_cmd_log) simp
qed

lemma generate_thumbnail_log:
  "length (cmd_log (generate_thumbnail e v out w)) \<le> length (cmd_log w) + 1"
proof (cases "exists_path w out")
  case True
  then show ?thesis by (simp add: generate_thumbnail_def)
next
  case False
  let ?cmd = "[lit ''ffmpeg'', lit ''-y'', lit ''-ss'', lit ''1.0'', lit ''-i'', v,
               lit ''-vframes'', lit ''1'', lit ''-q:v'', lit ''2'', out]"
  have "generate_thumbnail e v out w = snd (run_cmd e ?cmd w)"
    using False by (simp add: generate_thumbnail_def Let_def)
  then show ?thesis by (simp only: run_cmd_log) simp
qed

text \<open>
  Claim C2, as amended. For the base audio, the pitched audio and the thumbnail: a call
  that finds the artifact file in place returns without running the external program
  and leaves the world as it is; so of two calls in sequence the second does nothing
  when the file is there after the first, and the two together run the program at most
  once.
\<close>

theorem existing_artifact_not_reproduced:
  "(exists_path w out \<longrightarrow> extract_audio_wav e v out w = (Inr (), w))
   \<and> (exists_path w out \<longrightarrow> sox_pitch_shift_wav e i out s w = (Inr (), w))
   \<and> (exists_path w out \<longrightarrow> generate_thumbnail e v out w = w)
   \<and> (exists_path (snd (extract_audio_wav e v out w)) out \<longrightarrow>
        extract_audio_wav e v out (snd (extract_audio_wav e v out w))
          = (Inr (), snd (extract_audio_wav e v out w))
        \<and> length (cmd_log (snd (extract_audio_wav e v out w))) \<le> length (cmd_log w) + 1)
   \<and> (exists_path (snd (sox_pitch_shift_wav e i out s w)) out \<longrightarrow>
        sox_pitch_shift_wav e i out s (snd (sox_pitch_shift_wav e i out s w))
          = (Inr (), snd (sox_pitch_shift_wav e i out s w))
        \<and> length (cmd_log (snd (sox_pitch_shift_wav e i out s w))) \<le> length (cmd_log w) + 1)
   \<and> (exists_path (generate_thumbnail e v out w) out \<longrightarrow>
        generate_thumbnail e v out (generate_thumbnail e v out w) = generate_thumbnail e v out w
        \<and> length (cmd_log (generate_thumbnail e v out w)) \<le> length (cmd_log w) + 1)"
proof -
  have a: "exists_path w' out \<Longrightarrow> extract_audio_wav e v out w' = (Inr (), w')" for w'
    by (simp add: extract_audio_wav_def)
  have b: "exists_path w' out \<Longrightarrow> sox_pitch_shift_wav e i out s w' = (Inr (), w')" for w'
    by (simp add: sox_pitch_shift_wav_def)
  have c: "exists_path w' out \<Longrightarrow> generate_thumbnail e v out w' = w'" for w'
    by (simp add: generate_thumbnail_def)
  show ?thesis
    using a b c extract_audio_wav_log [of e v out w] sox_pitch_shift_wav_log [of e i out s w]
      generate_thumbnail_log [of e v out w]
    by blast
qed

theorem existing_artifact_not_reproduced_witness:
  "extract_audio_wav demo_ext (lit ''/v/a.mp4'') (lit ''/app/temp/audio/L3YvYS5tcDQ.wav'')
     demo_world = (Inr (), demo_world)
   \<and> sox_pitch_shift_wav demo_ext (lit ''/app/temp/audio/L3YvYS5tcDQ.wav'')
       (lit ''/app/temp/pitch/L3YvYS5tcDQ_+3.wav'') 3
       (snd (sox_pitch_shift_wav demo_ext (lit ''/app/temp/audio/L3YvYS5tcDQ.wav'')
               (lit ''/app/temp/pitch/L3YvYS5tcDQ_+3.wav'') 3 demo_world))
     = (Inr (), snd (sox_pitch_shift_wav demo_ext (lit ''/app/temp/audio/L3YvYS5tcDQ.wav'')
                       (lit ''/app/temp/pitch/L3YvYS5tcDQ_+3.wav'') 3 demo_world))
   \<and> length (cmd_log (snd (sox_pitch_shift_wav demo_ext
                              (lit ''/app/temp/audio/L3YvYS5tcDQ.wav'')
                              (lit ''/app/temp/pitch/L3YvYS5tcDQ_+3.wav'') 3 demo_world)))
       \<le> 1"
proof -
  let ?B = "lit ''/app/temp/audio/L3YvYS5tcDQ.wav''"
  let ?P = "lit ''/app/temp/pitch/L3YvYS5tcDQ_+3.wav''"
  have h1: "exists_path demo_world ?B"
    by (simp add: exists_path_def demo_world_def demo_files_def)
  have h2: "exists_path (snd (sox_pitch_shift_wav demo_ext ?B ?P 3 demo_world)) ?P"
    by (simp add: sox_pitch_shift_wav_def exists_path_def demo_world_def demo_files_def
        run_cmd_def demo_ext_def demo_tool_def Let_def)
  have l: "cmd_log demo_world = []" by (simp add: demo_world_def)
  note t = existing_artifact_not_reproduced [of demo_world ?B demo_ext "lit ''/v/a.mp4''" ?B 3]
  note u = existing_artifact_not_reproduced [of demo_world ?P demo_ext "lit ''/v/a.mp4''" ?B 3]
  have a: "extract_audio_wav demo_ext (lit ''/v/a.mp4'') ?B demo_world = (Inr (), demo_world)"
    by (rule t [THEN conjunct1, THEN mp, OF h1])
  note b = u [THEN conjunct2, THEN conjunct2, THEN conjunct2, THEN conjunct2, THEN conjunct1,
      THEN mp, OF h2]
  show ?thesis using a b by (simp add: l)
qed

theorem mux_runs_again_over_existing_output:
  "exists_path
     (snd (mux_video_with_audio demo_ext (lit ''/v/a.mp4'')
             (lit ''/app/temp/audio/L3YvYS5tcDQ.wav'') (lit ''/home/u/Downloads/a_+0.mp4'')
             demo_world))
     (lit ''/home/u/Downloads/a_+0.mp4'')
   \<and> cmd_log demo_world = []
   \<and> length
       (cmd_log
          (snd (mux_video_with_audio demo_ext (lit ''/v/a.mp4'')
                  (lit ''/app/temp/audio/L3YvYS5tcDQ.wav'') (lit ''/home/u/Downloads/a_+0.mp4'')
                  (snd (mux_video_with_audio demo_ext (lit ''/v/a.mp4'')
                          (lit ''/app/temp/audio/L3YvYS5tcDQ.wav'')
                          (lit ''/home/u/Downloads/a_+0.mp4'') demo_world)))))
     = 2"
  by (simp add: mux_video_with_audio_def exists_path_def demo_world_def demo_files_def
      run_cmd_def demo_ext_def demo_tool_def Let_def)

section \<open>Storing a video needs its audio\<close>

lemma py_str_zero: "py_str 0 = lit ''0''"
  by (simp add: py_str_def nat_digits.simps)

lemma get_video_path_found:
  "b64url_decode_path file_id = Inr video_path \<Longrightarrow> exists_path w video_path \<Longrightarrow>
     get_video_path_from_id_or_404 w file_id = Inr video_path"
  by (simp add: get_video_path_from_id_or_404_def)

lemma mux_video_with_audio_log:
  "cmd_log (snd (mux_video_with_audio e v a out w))
     = cmd_log w @
       [[lit ''ffmpeg'', lit ''-y'', lit ''-i'', v, lit ''-i'', a, lit ''-c:v'', lit ''copy'',
         lit ''-c:a'', lit ''aac'', lit ''-b:a'', lit ''192k'', lit ''-map'', lit ''0:v:0'',
         lit ''-map'', lit ''1:a:0'', lit ''-shortest'', out]]"
proof -
  let ?cmd = "[lit ''ffmpeg'', lit ''-y'', lit ''-i'', v, lit ''-i'', a, lit ''-c:v'', lit ''copy'',
         lit ''-c:a'', lit ''aac'', lit ''-b:a'', lit ''192k'', lit ''-map'', lit ''0:v:0'',
         lit ''-map'', lit ''1:a:0'', lit ''-shortest'', out]"
  have "snd (mux_video_with_audio e v a out w) = snd (run_cmd e ?cmd w)"
    by (simp add: mux_video_with_audio_def Let_def split: prod.splits)
  then show ?thesis by (simp only: run_cmd_log)
qed

lemma api_store_video_muxes:
  assumes "get_video_path_from_id_or_404 w file_id = Inr video_path"
    and "exists_path w (audio_base_path_for_id e file_id)"
  shows "snd (api_store_video e (Some file_id) (Some 0) w)
         = snd (mux_video_with_audio e video_path (audio_base_path_for_id e file_id)
                  (joinpath (DOWNLOADS_DIR e) (path_stem video_path @ lit ''_+0.mp4'')) w)"
  using assms
  by (simp add: api_store_video_def Let_def py_str_zero split: prod.splits sum.splits)

text \<open>
  Claim C8. When the source video of the identifier exists and the semitone value is not
  zero, a store request whose pitched audio for that value is absent is answered with
  status 400 and the advice to generate the audio first, whether or not the base audio
  exists, and the world is left as it was: nothing is produced. With the value zero the
  audio is the base audio: without it the request is refused in the same way, with it
  the muxer is started on the video and the base audio.
\<close>

theorem store_video_needs_audio:
  assumes "b64url_decode_path file_id = Inr video_path" and "exists_path w video_path"
  shows "(s \<noteq> 0 \<and> \<not> exists_path w (pitched_audio_path_for_id e file_id s) \<longrightarrow>
            api_store_video e (Some file_id) (Some s) w
              = (abort_json 400 (lit ''Requested audio not available. Generate it first.''), w))
         \<and> (\<not> exists_path w (audio_base_path_for_id e file_id) \<longrightarrow>
            api_store_video e (Some file_id) (Some 0) w
              = (abort_json 400 (lit ''Requested audio not available. Generate it first.''), w))
         \<and> (exists_path w (audio_base_path_for_id e file_id) \<longrightarrow>
            cmd_log (snd (api_store_video e (Some file_id) (Some 0) w))
              = cmd_log w @
                [[lit ''ffmpeg'', lit ''-y'', lit ''-i'', video_path, lit ''-i'',
                  audio_base_path_for_id e file_id, lit ''-c:v'', lit ''copy'', lit ''-c:a'',
                  lit ''aac'', lit ''-b:a'', lit ''192k'', lit ''-map'', lit ''0:v:0'', lit ''-map'',
                  lit ''1:a:0'', lit ''-shortest'',
                  joinpath (DOWNLOADS_DIR e) (path_stem video_path @ lit ''_+0.mp4'')]])"
proof -
  note g = get_video_path_found [OF assms]
  have a: "s \<noteq> 0 \<and> \<not> exists_path w (pitched_audio_path_for_id e file_id s) \<Longrightarrow>
            api_store_video e (Some file_id) (Some s) w
              = (abort_json 400 (lit ''Requested audio not available. Generate it first.''), w)"
    by (simp add: api_store_video_def g Let_def)
  have b: "\<not> exists_path w (audio_base_path_for_id e file_id) \<Longrightarrow>
            api_store_video e (Some file_id) (Some 0) w
              = (abort_json 400 (lit ''Requested audio not available. Generate it first.''), w)"
    by (simp add: api_store_video_def g Let_def)
  have c: "exists_path w (audio_base_path_for_id e file_id) \<Longrightarrow>
            cmd_log (snd (api_store_video e (Some file_id) (Some 0) w))
              = cmd_log w @
                [[lit ''ffmpeg'', lit ''-y'', lit ''-i'', video_path, lit ''-i'',
                  audio_base_path_for_id e file_id, lit ''-c:v'', lit ''copy'', lit ''-c:a'',
                  lit ''aac'', lit ''-b:a'', lit ''192k'', lit ''-map'', lit ''0:v:0'', lit ''-map'',
                  lit ''1:a:0'', lit ''-shortest'',
                  joinpath (DOWNLOADS_DIR e) (path_stem video_path @ lit ''_+0.mp4'')]]"
    by (simp only: api_store_video_muxes [OF g] mux_video_with_audio_log)
  from a b c show ?thesis by blast
qed

theorem store_video_needs_audio_witness:
  "api_store_video demo_ext (Some (lit ''L3YvYS5tcDQ'')) (Some 3) demo_world
     = (abort_json 400 (lit ''Requested audio not available. Generate it first.''), demo_world)
   \<and> cmd_log (snd (api_store_video demo_ext (Some (lit ''L3YvYS5tcDQ'')) (Some 0) demo_world))
     = [[lit ''ffmpeg'', lit ''-y'', lit ''-i'', lit ''/v/a.mp4'', lit ''-i'',
         lit ''/app/temp/audio/L3YvYS5tcDQ.wav'', lit ''-c:v'', lit ''copy'', lit ''-c:a'',
         lit ''aac'', lit ''-b:a'', lit ''192k'', lit ''-map'', lit ''0:v:0'', lit ''-map'',
         lit ''1:a:0'', lit ''-shortest'', lit ''/home/u/Downloads/a_+0.mp4'']]"
proof -
  have d: "b64url_decode_path (lit ''L3YvYS5tcDQ'') = Inr (lit ''/v/a.mp4'')" by code_simp
  have v: "exists_path demo_world (lit ''/v/a.mp4'')"
    by (simp add: exists_path_def demo_world_def demo_files_def)
  have s3: "py_str 3 = lit ''3''" by (simp add: py_str_def nat_digits.simps)
  have base: "audio_base_path_for_id demo_ext (lit ''L3YvYS5tcDQ'')
              = lit ''/app/temp/audio/L3YvYS5tcDQ.wav''"
    by (simp add: audio_base_path_for_id_def AUDIO_DIR_def TEMP_DIR_def joinpath_def demo_ext_def)
  have pitched: "pitched_audio_path_for_id demo_ext (lit ''L3YvYS5tcDQ'') 3
                 = lit ''/app/temp/pitch/L3YvYS5tcDQ_+3.wav''"
    by (simp add: pitched_audio_path_for_id_def PITCH_DIR_def TEMP_DIR_def joinpath_def
        demo_ext_def s3)
  have h1: "(3::int) \<noteq> 0
            \<and> \<not> exists_path demo_world (pitched_audio_path_for_id demo_ext (lit ''L3YvYS5tcDQ'') 3)"
    unfolding pitched by (simp add: exists_path_def demo_world_def demo_files_def)
  have h2: "exists_path demo_world (audio_base_path_for_id demo_ext (lit ''L3YvYS5tcDQ''))"
    unfolding base by (simp add: exists_path_def demo_world_def demo_files_def)
  have out: "joinpath (DOWNLOADS_DIR demo_ext) (path_stem (lit ''/v/a.mp4'') @ lit ''_+0.mp4'')
             = lit ''/home/u/Downloads/a_+0.mp4''"
    by (simp add: joinpath_def demo_ext_def path_stem_def path_name_def Let_def)
  have l: "cmd_log demo_world = []" by (simp add: demo_world_def)
  note t3 = store_video_needs_audio [OF d v, of 3 demo_ext]
  note t0 = store_video_needs_audio [OF d v, of 0 demo_ext]
  note a = t3 [THEN conjunct1, THEN mp, OF h1]
  note b = t0 [THEN conjunct2, THEN conjunct2, THEN mp, OF h2]
  show ?thesis using a b unfolding base out l by simp
qed

section \<open>A pitch request for zero semitones\<close>











end
